theory Spec2Isabelle
  imports Complex_Main "HOL-Library.Sublist"
begin

section \<open>Values held by the shared buffer\<close>

text \<open>
  The script \<^verbatim>\<open>lab_3_data_script.py\<close> stores Python objects in the list
  \<^verbatim>\<open>collected_data\<close> and hands that list to \<^verbatim>\<open>json.dump\<close>. The values modelled here
  are the ones the JSON encoder accepts, floating-point numbers apart: \<^verbatim>\<open>None\<close>,
  booleans, unbounded integers, strings (characters with code points below 256), lists,
  tuples, and dictionaries whose keys are strings, integers, booleans or \<^verbatim>\<open>None\<close>,
  kept in insertion order as Python keeps them. A Python dictionary has no key twice.
\<close>

datatype pykey = KStr string | KInt int | KBool bool | KNone

datatype pyval =
    PNone
  | PBool bool
  | PInt int
  | PStr string
  | PList "pyval list"
  | PTuple "pyval list"
  | PDict "(pykey \<times> pyval) list"

type_synonym pydict = "(pykey \<times> pyval) list"

text \<open>\<^verbatim>\<open>key in d\<close> and \<^verbatim>\<open>d[key]\<close> for a dictionary and a string \<^verbatim>\<open>key\<close>.\<close>

definition has_key :: "string \<Rightarrow> pydict \<Rightarrow> bool" where
  "has_key k d = (KStr k \<in> set (map fst d))"

definition get_item :: "pydict \<Rightarrow> string \<Rightarrow> pyval option" where
  "get_item d k = map_of d (KStr k)"

subsection \<open>\<^verbatim>\<open>json.dump(obj, f, indent=4)\<close>\<close>

text \<open>
  The encoder of the Python standard library with \<^verbatim>\<open>indent=4\<close> and the default
  \<^verbatim>\<open>ensure_ascii=True\<close>: items of a non-empty container start on a line of their own,
  indented by four spaces per nesting level and separated by a comma; a key is followed
  by a colon and a space; empty containers are \<^verbatim>\<open>[]\<close> and \<^verbatim>\<open>{}\<close>. A tuple is
  written as an array, and a key that is not a string is written as the string of its
  JSON text.
\<close>

definition dquote :: char where "dquote = CHR 0x22"
definition bslash :: char where "bslash = CHR 0x5C"
definition newline :: char where "newline = CHR 0x0A"

definition hexdigit :: "nat \<Rightarrow> char" where
  "hexdigit n = (if n < 10 then char_of (48 + n) else char_of (87 + n))"

definition escape_char :: "char \<Rightarrow> string" where
  "escape_char c =
     (let n = (of_char c :: nat) in
      if c = dquote then [bslash, dquote]
      else if c = bslash then [bslash, bslash]
      else if n = 0x0A then [bslash, CHR ''n'']
      else if n = 0x0D then [bslash, CHR ''r'']
      else if n = 0x09 then [bslash, CHR ''t'']
      else if n = 0x08 then [bslash, CHR ''b'']
      else if n = 0x0C then [bslash, CHR ''f'']
      else if 0x20 \<le> n \<and> n \<le> 0x7E then [c]
      else [bslash, CHR ''u'', CHR ''0'', CHR ''0'', hexdigit (n div 16), hexdigit (n mod 16)])"

definition encode_str :: "string \<Rightarrow> string" where
  "encode_str s = dquote # concat (map escape_char s) @ [dquote]"

fun decimal :: "nat \<Rightarrow> string" where
  "decimal n = (if n < 10 then [char_of (48 + n)] else decimal (n div 10) @ [char_of (48 + n mod 10)])"

declare decimal.simps [simp del]

definition encode_int :: "int \<Rightarrow> string" where
  "encode_int i = (if i < 0 then CHR ''-'' # decimal (nat (- i)) else decimal (nat i))"

definition newline_indent :: "nat \<Rightarrow> string" where
  "newline_indent lvl = newline # replicate (4 * lvl) CHR '' ''"

fun key_text :: "pykey \<Rightarrow> string" where
  "key_text (KStr s) = s"
| "key_text (KInt i) = encode_int i"
| "key_text (KBool b) = (if b then ''true'' else ''false'')"
| "key_text KNone = ''null''"

fun dump_val :: "nat \<Rightarrow> pyval \<Rightarrow> string"
  and dump_items :: "nat \<Rightarrow> pyval list \<Rightarrow> string"
  and dump_members :: "nat \<Rightarrow> (pykey \<times> pyval) list \<Rightarrow> string"
where
  "dump_val lvl PNone = ''null''"
| "dump_val lvl (PBool b) = (if b then ''true'' else ''false'')"
| "dump_val lvl (PInt i) = encode_int i"
| "dump_val lvl (PStr s) = encode_str s"
| "dump_val lvl (PList []) = ''[]''"
| "dump_val lvl (PList (x # xs)) =
     ''['' @ newline_indent (Suc lvl) @ dump_items (Suc lvl) (x # xs) @ newline_indent lvl @ '']''"
| "dump_val lvl (PTuple []) = ''[]''"
| "dump_val lvl (PTuple (x # xs)) =
     ''['' @ newline_indent (Suc lvl) @ dump_items (Suc lvl) (x # xs) @ newline_indent lvl @ '']''"
| "dump_val lvl (PDict []) = ''{}''"
| "dump_val lvl (PDict (m # ms)) =
     ''{'' @ newline_indent (Suc lvl) @ dump_members (Suc lvl) (m # ms) @ newline_indent lvl @ ''}''"
| "dump_items lvl [] = []"
| "dump_items lvl [x] = dump_val lvl x"
| "dump_items lvl (x # y # ys) =
     dump_val lvl x @ '','' @ newline_indent lvl @ dump_items lvl (y # ys)"
| "dump_members lvl [] = []"
| "dump_members lvl [(k, v)] = encode_str (key_text k) @ '': '' @ dump_val lvl v"
| "dump_members lvl ((k, v) # m # ms) =
     encode_str (key_text k) @ '': '' @ dump_val lvl v @ '','' @ newline_indent lvl @
       dump_members lvl (m # ms)"

definition json_dumps :: "pyval \<Rightarrow> string" where
  "json_dumps v = dump_val 0 v"

subsection \<open>\<^verbatim>\<open>json.loads\<close>\<close>




















section \<open>The session: threads, shared state and effects\<close>

text \<open>
  The script runs five threads: the main thread and the four daemon threads it starts
  (\<^verbatim>\<open>point_telescope\<close>, \<^verbatim>\<open>collect_spectrometer_data\<close>, \<^verbatim>\<open>collect_sdr_data\<close>,
  \<^verbatim>\<open>save_data_periodically\<close>).
\<close>

datatype thread = Controller | Pointing | Spectrometer | Sdr | Writer

datatype prompt =
    AskSun | AskCoords | AskRA | AskDec | AskAltitude | AskAzimuth
  | AskSamples | AskBlocks | AskDuration

text \<open>The lines the script prints, with the values formatted into them.\<close>

datatype message =
    TelescopePointed real real
  | TelescopeError string
  | SpectrometerFinished
  | SpectrometerError string
  | SdrFinished
  | SdrError string
  | DataSaved
  | SaveError string
  | SunPosition real real
  | InputError string
  | DurationReached
  | Terminating
  | UnexpectedError string
  | Completed

text \<open>
  What a thread does to the world outside its own variables. \<open>GetAltAz ra dec jd lat lon alt\<close>
  is the call \<^verbatim>\<open>get_altaz(ra, dec, jd, lat, lon, alt)\<close>; \<open>Asked p a\<close> is a prompt answered
  with the line \<open>a\<close>, \<open>AskedEOF p\<close> a prompt that met the end of the input.
\<close>

datatype effect =
    Point real real
  | ReadData "pyval option"
  | NewSDR
  | CaptureData int int
  | Append pyval
  | OpenForWrite
  | Sleep nat
  | Print message
  | SetFlag
  | StartThread thread
  | Asked prompt string
  | AskedEOF prompt
  | JulianDate
  | SunPos real
  | GetAltAz real real real real real real

fun is_hardware_call :: "effect \<Rightarrow> bool" where
  "is_hardware_call (Point a z) = True"
| "is_hardware_call (ReadData c) = True"
| "is_hardware_call NewSDR = True"
| "is_hardware_call (CaptureData n b) = True"
| "is_hardware_call e = False"

fun is_append :: "effect \<Rightarrow> bool" where
  "is_append (Append r) = True"
| "is_append e = False"

fun is_read_or_capture :: "effect \<Rightarrow> bool" where
  "is_read_or_capture (ReadData c) = True"
| "is_read_or_capture (CaptureData n b) = True"
| "is_read_or_capture e = False"

type_synonym event = "thread \<times> effect"

text \<open>The arguments the four threads are created with.\<close>

record params =
  target_alt :: real
  target_az :: real
  nsamples :: int
  nblocks :: int
  duration :: real

text \<open>
  Where a thread stands. Each loop has one location per statement that touches the
  world: the test at the loop head, the adapter call, the block under \<^verbatim>\<open>data_lock\<close>
  and the pause. A block \<^verbatim>\<open>with data_lock:\<close> is one step: the lock makes it atomic
  with respect to every other access of \<^verbatim>\<open>collected_data\<close>.
\<close>

datatype tel_pc = TelIdle | TelCheck | TelPoint | TelSleep | TelDone

datatype spec_pc = SpIdle | SpInit | SpCheck | SpRead | SpAppend pydict | SpSleep | SpDone

datatype sdr_pc = SdIdle | SdInit | SdStart | SdCheck | SdCapture | SdAppend pyval | SdSleep | SdDone

datatype writer_pc = WrIdle | WrCheck | WrWrite | WrSleep | WrDone

datatype main_pc =
    MnStartTel | MnStartSpec | MnStartSdr | MnStartWriter
  | MnInit | MnCheck | MnSleep | MnFinish | MnExit

record state =
  terminate_flag :: bool
  collected_data :: "pyval list"
  data_file :: "string option"
  tel :: tel_pc
  spec :: spec_pc
  prev_cnt :: "pyval option"
  spec_start :: real
  sdr :: sdr_pc
  sdr_start :: real
  writer :: writer_pc
  main :: main_pc
  main_start :: real
  trace :: "event list"

text \<open>
  What the world hands to the step a thread takes: nothing (\<open>Tick\<close>), a reading of
  \<^verbatim>\<open>time.time()\<close>, the value an outside call returned, the exception it raised
  (\<open>RaisedAfter n\<close>: the file write failed after \<open>n\<close> characters), or Ctrl-C.
\<close>

datatype input =
    Tick
  | Clock real
  | Returned pyval
  | Raised string
  | RaisedAfter nat string
  | Interrupt

definition emit :: "thread \<Rightarrow> effect \<Rightarrow> state \<Rightarrow> state" where
  "emit th e s = s\<lparr>trace := trace s @ [(th, e)]\<rparr>"

subsection \<open>\<^verbatim>\<open>point_telescope\<close>\<close>

fun point_telescope :: "params \<Rightarrow> tel_pc \<Rightarrow> input \<Rightarrow> state \<Rightarrow> state option" where
  "point_telescope p TelCheck Tick s =
     Some (if terminate_flag s then s\<lparr>tel := TelDone\<rparr> else s\<lparr>tel := TelPoint\<rparr>)"
| "point_telescope p TelPoint (Returned v) s =
     Some ((emit Pointing (Print (TelescopePointed (target_alt p) (target_az p)))
             (emit Pointing (Point (target_alt p) (target_az p)) s))\<lparr>tel := TelSleep\<rparr>)"
| "point_telescope p TelPoint (Raised e) s =
     Some ((emit Pointing (Print (TelescopeError e))
             (emit Pointing (Point (target_alt p) (target_az p)) s))\<lparr>tel := TelDone\<rparr>)"
| "point_telescope p TelSleep Tick s = Some ((emit Pointing (Sleep 5) s)\<lparr>tel := TelCheck\<rparr>)"
| "point_telescope p pc i s = None"

subsection \<open>\<^verbatim>\<open>collect_spectrometer_data\<close>\<close>

definition spectra_record :: "pyval \<Rightarrow> pydict \<Rightarrow> pyval" where
  "spectra_record t d = PDict [(KStr ''time'', t), (KStr ''spectra'', PDict d)]"

fun collect_spectrometer_data :: "params \<Rightarrow> spec_pc \<Rightarrow> input \<Rightarrow> state \<Rightarrow> state option" where
  "collect_spectrometer_data p SpInit (Clock t) s =
     Some (s\<lparr>prev_cnt := None, spec_start := t, spec := SpCheck\<rparr>)"
| "collect_spectrometer_data p SpCheck (Clock t) s =
     Some (if t - spec_start s < duration p \<and> \<not> terminate_flag s
           then s\<lparr>spec := SpRead\<rparr>
           else (emit Spectrometer (Print SpectrometerFinished) s)\<lparr>spec := SpDone\<rparr>)"
| "collect_spectrometer_data p SpRead (Returned (PDict d)) s =
     (let s1 = emit Spectrometer (ReadData (prev_cnt s)) s in
      Some (if has_key ''acc_cnt'' d
            then s1\<lparr>prev_cnt := get_item d ''acc_cnt'', spec := SpAppend d\<rparr>
            else s1\<lparr>spec := SpSleep\<rparr>))"
| "collect_spectrometer_data p SpRead (Raised e) s =
     Some ((emit Spectrometer (Print (SpectrometerError e))
             (emit Spectrometer (ReadData (prev_cnt s)) s))\<lparr>spec := SpDone\<rparr>)"
| "collect_spectrometer_data p (SpAppend d) (Returned t) s =
     Some ((emit Spectrometer (Append (spectra_record t d)) s)
             \<lparr>collected_data := collected_data s @ [spectra_record t d], spec := SpSleep\<rparr>)"
| "collect_spectrometer_data p SpSleep Tick s =
     Some ((emit Spectrometer (Sleep 1) s)\<lparr>spec := SpCheck\<rparr>)"
| "collect_spectrometer_data p pc i s = None"

subsection \<open>\<^verbatim>\<open>collect_sdr_data\<close>\<close>

definition sdr_record :: "pyval \<Rightarrow> pyval \<Rightarrow> pyval" where
  "sdr_record t v = PDict [(KStr ''time'', t), (KStr ''sdr'', v)]"

fun collect_sdr_data :: "params \<Rightarrow> sdr_pc \<Rightarrow> input \<Rightarrow> state \<Rightarrow> state option" where
  "collect_sdr_data p SdInit (Returned h) s = Some ((emit Sdr NewSDR s)\<lparr>sdr := SdStart\<rparr>)"
| "collect_sdr_data p SdInit (Raised e) s =
     Some ((emit Sdr (Print (SdrError e)) (emit Sdr NewSDR s))\<lparr>sdr := SdDone\<rparr>)"
| "collect_sdr_data p SdStart (Clock t) s = Some (s\<lparr>sdr_start := t, sdr := SdCheck\<rparr>)"
| "collect_sdr_data p SdCheck (Clock t) s =
     Some (if t - sdr_start s < duration p \<and> \<not> terminate_flag s
           then s\<lparr>sdr := SdCapture\<rparr>
           else (emit Sdr (Print SdrFinished) s)\<lparr>sdr := SdDone\<rparr>)"
| "collect_sdr_data p SdCapture (Returned v) s =
     Some ((emit Sdr (CaptureData (nsamples p) (nblocks p)) s)\<lparr>sdr := SdAppend v\<rparr>)"
| "collect_sdr_data p SdCapture (Raised e) s =
     Some ((emit Sdr (Print (SdrError e))
             (emit Sdr (CaptureData (nsamples p) (nblocks p)) s))\<lparr>sdr := SdDone\<rparr>)"
| "collect_sdr_data p (SdAppend v) (Returned t) s =
     Some ((emit Sdr (Append (sdr_record t v)) s)
             \<lparr>collected_data := collected_data s @ [sdr_record t v], sdr := SdSleep\<rparr>)"
| "collect_sdr_data p SdSleep Tick s = Some ((emit Sdr (Sleep 1) s)\<lparr>sdr := SdCheck\<rparr>)"
| "collect_sdr_data p pc i s = None"

subsection \<open>\<^verbatim>\<open>save_data_periodically\<close>\<close>

text \<open>
  \<^verbatim>\<open>open(DATA_FILE, "w")\<close> truncates the file, so a completed write leaves exactly the
  encoding of the buffer. When \<^verbatim>\<open>open\<close> raises the file is as it was; when the write
  raises the file holds the characters written so far.
\<close>

fun save_data_periodically :: "params \<Rightarrow> writer_pc \<Rightarrow> input \<Rightarrow> state \<Rightarrow> state option" where
  "save_data_periodically p WrCheck Tick s =
     Some (if terminate_flag s then s\<lparr>writer := WrDone\<rparr> else s\<lparr>writer := WrWrite\<rparr>)"
| "save_data_periodically p WrWrite (Returned v) s =
     Some ((emit Writer (Print DataSaved) (emit Writer OpenForWrite s))
             \<lparr>data_file := Some (json_dumps (PList (collected_data s))), writer := WrSleep\<rparr>)"
| "save_data_periodically p WrWrite (Raised e) s =
     Some ((emit Writer (Print (SaveError e)) (emit Writer OpenForWrite s))\<lparr>writer := WrDone\<rparr>)"
| "save_data_periodically p WrWrite (RaisedAfter n e) s =
     Some ((emit Writer (Print (SaveError e)) (emit Writer OpenForWrite s))
             \<lparr>data_file := Some (take n (json_dumps (PList (collected_data s)))), writer := WrDone\<rparr>)"
| "save_data_periodically p WrSleep Tick s = Some ((emit Writer (Sleep 10) s)\<lparr>writer := WrCheck\<rparr>)"
| "save_data_periodically p pc i s = None"

subsection \<open>Starting the threads and the main loop\<close>

text \<open>
  The threads are started one after the other, outside any \<^verbatim>\<open>try\<close>. The main loop
  sets \<^verbatim>\<open>terminate_flag\<close> when the duration has passed, on Ctrl-C and on any other
  exception; nothing in the script clears it. When the main thread has ended the
  process ends, and the daemon threads with it.
\<close>

definition set_flag :: "state \<Rightarrow> state" where
  "set_flag s = (emit Controller SetFlag s)\<lparr>terminate_flag := True\<rparr>"

fun main_loop :: "params \<Rightarrow> main_pc \<Rightarrow> input \<Rightarrow> state \<Rightarrow> state option" where
  "main_loop p MnStartTel Tick s =
     Some ((emit Controller (StartThread Pointing) s)\<lparr>tel := TelCheck, main := MnStartSpec\<rparr>)"
| "main_loop p MnStartSpec Tick s =
     Some ((emit Controller (StartThread Spectrometer) s)\<lparr>spec := SpInit, main := MnStartSdr\<rparr>)"
| "main_loop p MnStartSdr Tick s =
     Some ((emit Controller (StartThread Sdr) s)\<lparr>sdr := SdInit, main := MnStartWriter\<rparr>)"
| "main_loop p MnStartWriter Tick s =
     Some ((emit Controller (StartThread Writer) s)\<lparr>writer := WrCheck, main := MnInit\<rparr>)"
| "main_loop p MnInit (Clock t) s = Some (s\<lparr>main_start := t, main := MnCheck\<rparr>)"
| "main_loop p MnCheck (Clock t) s =
     Some (if t - main_start s < duration p
           then s\<lparr>main := MnSleep\<rparr>
           else (set_flag (emit Controller (Print DurationReached) s))\<lparr>main := MnFinish\<rparr>)"
| "main_loop p MnSleep Tick s = Some ((emit Controller (Sleep 1) s)\<lparr>main := MnCheck\<rparr>)"
| "main_loop p MnFinish Tick s = Some ((emit Controller (Print Completed) s)\<lparr>main := MnExit\<rparr>)"
| "main_loop p pc Interrupt s =
     Some (if pc = MnInit \<or> pc = MnCheck \<or> pc = MnSleep
           then (set_flag (emit Controller (Print Terminating) s))\<lparr>main := MnFinish\<rparr>
           else s\<lparr>main := MnExit\<rparr>)"
| "main_loop p pc (Raised e) s =
     (if pc = MnInit \<or> pc = MnCheck \<or> pc = MnSleep
      then Some ((set_flag (emit Controller (Print (UnexpectedError e)) s))\<lparr>main := MnFinish\<rparr>)
      else None)"
| "main_loop p pc i s = None"

subsection \<open>The interleaving\<close>

definition step :: "params \<Rightarrow> thread \<Rightarrow> input \<Rightarrow> state \<Rightarrow> state option" where
  "step p th i s =
     (if main s = MnExit then None
      else case th of
             Controller \<Rightarrow> main_loop p (main s) i s
           | Pointing \<Rightarrow> point_telescope p (tel s) i s
           | Spectrometer \<Rightarrow> collect_spectrometer_data p (spec s) i s
           | Sdr \<Rightarrow> collect_sdr_data p (sdr s) i s
           | Writer \<Rightarrow> save_data_periodically p (writer s) i s)"

fun exec :: "params \<Rightarrow> state \<Rightarrow> (thread \<times> input) list \<Rightarrow> state option" where
  "exec p s [] = Some s"
| "exec p s ((th, i) # acts) =
     (case step p th i s of None \<Rightarrow> None | Some s' \<Rightarrow> exec p s' acts)"

section \<open>The prompts before the threads start\<close>

text \<open>
  \<^verbatim>\<open>float\<close>, \<^verbatim>\<open>int\<close>, the clock and the coordinate routines \<^verbatim>\<open>sunpos\<close> and
  \<^verbatim>\<open>get_altaz\<close> are not part of the script; the model takes them from an environment.
  A conversion or a routine that raises returns \<open>Inl\<close> with the exception's text.
\<close>

record env =
  py_float :: "string \<Rightarrow> string + real"
  py_int :: "string \<Rightarrow> string + int"
  julian_date :: real
  time_now :: real
  sunpos :: "real \<Rightarrow> string + real \<times> real"
  get_altaz :: "real \<Rightarrow> real \<Rightarrow> real \<Rightarrow> real \<Rightarrow> real \<Rightarrow> real \<Rightarrow> string + real \<times> real"

text \<open>\<^verbatim>\<open>s.strip().lower() == "yes"\<close>\<close>

definition py_isspace :: "char \<Rightarrow> bool" where
  "py_isspace c = ((of_char c :: nat) \<in> {9, 10, 11, 12, 13, 28, 29, 30, 31, 32, 133, 160})"

definition py_strip :: "string \<Rightarrow> string" where
  "py_strip s = rev (dropWhile py_isspace (rev (dropWhile py_isspace s)))"

definition py_lower_char :: "char \<Rightarrow> char" where
  "py_lower_char c =
     (let n = (of_char c :: nat) in
      if (65 \<le> n \<and> n \<le> 90) \<or> (192 \<le> n \<and> n \<le> 214) \<or> (216 \<le> n \<and> n \<le> 222)
      then char_of (n + 32) else c)"

definition py_lower :: "string \<Rightarrow> string" where
  "py_lower s = map py_lower_char s"

definition is_yes :: "string \<Rightarrow> bool" where
  "is_yes s = (py_lower (py_strip s) = ''yes'')"

text \<open>
  The console: the lines still to be read and what has been done so far. A step of the
  set-up either raises (and everything after it is skipped, up to the \<^verbatim>\<open>except\<close>) or
  returns a value.
\<close>

record console =
  stdin :: "string list"
  out :: "event list"

type_synonym 'a io = "console \<Rightarrow> (string + 'a) \<times> console"

definition ret :: "'a \<Rightarrow> 'a io" where
  "ret x c = (Inr x, c)"

definition bnd :: "'a io \<Rightarrow> ('a \<Rightarrow> 'b io) \<Rightarrow> 'b io" where
  "bnd m f c = (case m c of (Inl e, c') \<Rightarrow> (Inl e, c') | (Inr x, c') \<Rightarrow> f x c')"

definition does :: "effect \<Rightarrow> unit io" where
  "does e c = (Inr (), c\<lparr>out := out c @ [(Controller, e)]\<rparr>)"

definition lift :: "string + 'a \<Rightarrow> 'a io" where
  "lift r c = (r, c)"

definition input_line :: "prompt \<Rightarrow> string io" where
  "input_line pr c =
     (case stdin c of
        [] \<Rightarrow> (Inl ''EOF when reading a line'', c\<lparr>out := out c @ [(Controller, AskedEOF pr)]\<rparr>)
      | l # ls \<Rightarrow> (Inr l, c\<lparr>stdin := ls, out := out c @ [(Controller, Asked pr l)]\<rparr>))"

definition input_float :: "env \<Rightarrow> prompt \<Rightarrow> real io" where
  "input_float ev pr = bnd (input_line pr) (\<lambda>l. lift (py_float ev l))"

definition input_int :: "env \<Rightarrow> prompt \<Rightarrow> int io" where
  "input_int ev pr = bnd (input_line pr) (\<lambda>l. lift (py_int ev l))"

definition sun_target :: "env \<Rightarrow> (real \<times> real) io" where
  "sun_target ev =
     bnd (does JulianDate) (\<lambda>_.
     let jd = julian_date ev in
     bnd (does (SunPos jd)) (\<lambda>_.
     bnd (lift (sunpos ev jd)) (\<lambda>(ra, dec).
     let lat = 37.8716; lon = - 122.2727; alt = 0 in
     bnd (does (GetAltAz ra dec jd lat lon alt)) (\<lambda>_.
     bnd (lift (get_altaz ev ra dec jd lat lon alt)) (\<lambda>(target_alt, target_az).
     bnd (does (Print (SunPosition target_alt target_az))) (\<lambda>_.
     ret (target_alt, target_az)))))))"

definition coords_target :: "env \<Rightarrow> (real \<times> real) io" where
  "coords_target ev =
     bnd (input_float ev AskRA) (\<lambda>ra.
     bnd (input_float ev AskDec) (\<lambda>dec.
     let jd = time_now ev / 86400.0 + 2440587.5;
         lat = 37.8716; lon = - 122.2727; alt = 0 in
     bnd (does (GetAltAz ra dec jd lat lon alt)) (\<lambda>_.
     lift (get_altaz ev ra dec jd lat lon alt))))"

definition manual_target :: "env \<Rightarrow> (real \<times> real) io" where
  "manual_target ev =
     bnd (input_float ev AskAltitude) (\<lambda>target_alt.
     bnd (input_float ev AskAzimuth) (\<lambda>target_az.
     ret (target_alt, target_az)))"

definition user_input :: "env \<Rightarrow> params io" where
  "user_input ev =
     bnd (input_line AskSun) (\<lambda>a.
     let observe_sun = is_yes a in
     bnd (if observe_sun then ret False
          else bnd (input_line AskCoords) (\<lambda>b. ret (is_yes b))) (\<lambda>process_coords.
     bnd (if observe_sun then sun_target ev
          else if process_coords then coords_target ev
          else manual_target ev) (\<lambda>(talt, taz).
     bnd (input_int ev AskSamples) (\<lambda>ns.
     bnd (input_int ev AskBlocks) (\<lambda>nb.
     bnd (input_float ev AskDuration) (\<lambda>d.
     ret \<lparr>target_alt = talt, target_az = taz, nsamples = ns, nblocks = nb, duration = d\<rparr>))))))"

text \<open>
  The state in which the script reaches the line that creates the threads: nothing
  collected, the flag clear, no thread started yet. \<open>f0\<close> is what the file
  \<^verbatim>\<open>observations.json\<close> held before the session, if it existed.
\<close>

definition initial :: "string option \<Rightarrow> event list \<Rightarrow> state" where
  "initial f0 tr =
     \<lparr>terminate_flag = False, collected_data = [], data_file = f0,
      tel = TelIdle, spec = SpIdle, prev_cnt = None, spec_start = 0,
      sdr = SdIdle, sdr_start = 0, writer = WrIdle,
      main = MnStartTel, main_start = 0, trace = tr\<rparr>"

text \<open>
  The whole set-up: on any exception the script prints \<^verbatim>\<open>Input error: ...\<close> and calls
  \<^verbatim>\<open>exit()\<close>, so the main thread has ended before the first thread is created.
\<close>

definition session :: "env \<Rightarrow> string list \<Rightarrow> string option \<Rightarrow> params option \<times> state" where
  "session ev lines f0 =
     (case user_input ev \<lparr>stdin = lines, out = []\<rparr> of
        (Inl e, c) \<Rightarrow>
          (None, (initial f0 (out c @ [(Controller, Print (InputError e))]))\<lparr>main := MnExit\<rparr>)
      | (Inr p, c) \<Rightarrow> (Some p, initial f0 (out c)))"

section \<open>Reading a run\<close>

text \<open>The events a run added to the trace, and the records they appended, in order.\<close>

definition events_since :: "state \<Rightarrow> state \<Rightarrow> event list" where
  "events_since s s' = drop (length (trace s)) (trace s')"

fun appended :: "event list \<Rightarrow> pyval list" where
  "appended [] = []"
| "appended ((th, Append r) # evs) = r # appended evs"
| "appended (ev # evs) = appended evs"

definition by_thread :: "thread \<Rightarrow> event list \<Rightarrow> effect list" where
  "by_thread th evs = map snd (filter (\<lambda>e. fst e = th) evs)"

text \<open>A record with a \<^verbatim>\<open>time\<close> key and exactly one of the keys \<^verbatim>\<open>spectra\<close> and \<^verbatim>\<open>sdr\<close>.\<close>

fun record_ok :: "pyval \<Rightarrow> bool" where
  "record_ok (PDict d) = (has_key ''time'' d \<and> (has_key ''spectra'' d \<noteq> has_key ''sdr'' d))"
| "record_ok v = False"

text \<open>The head of a thread's loop, where it tests \<^verbatim>\<open>terminate_flag\<close>, and its end.\<close>

fun at_loop_head :: "thread \<Rightarrow> state \<Rightarrow> bool" where
  "at_loop_head Pointing s = (tel s = TelCheck)"
| "at_loop_head Spectrometer s = (spec s = SpCheck)"
| "at_loop_head Sdr s = (sdr s = SdCheck)"
| "at_loop_head Writer s = (writer s = WrCheck)"
| "at_loop_head Controller s = (main s = MnCheck)"

fun finished :: "thread \<Rightarrow> state \<Rightarrow> bool" where
  "finished Pointing s = (tel s = TelDone)"
| "finished Spectrometer s = (spec s = SpDone)"
| "finished Sdr s = (sdr s = SdDone)"
| "finished Writer s = (writer s = WrDone)"
| "finished Controller s = (main s = MnExit)"

text \<open>The threads are started in order, and only once.\<close>

definition started_in_order :: "state \<Rightarrow> bool" where
  "started_in_order s =
     ((main s = MnStartTel \<longrightarrow> tel s = TelIdle) \<and>
      (main s \<in> {MnStartTel, MnStartSpec} \<longrightarrow> spec s = SpIdle) \<and>
      (main s \<in> {MnStartTel, MnStartSpec, MnStartSdr} \<longrightarrow> sdr s = SdIdle) \<and>
      (main s \<in> {MnStartTel, MnStartSpec, MnStartSdr, MnStartWriter} \<longrightarrow> writer s = WrIdle))"

text \<open>The readings of the clock that a schedule hands out, in order.\<close>

fun clock_readings :: "(thread \<times> input) list \<Rightarrow> real list" where
  "clock_readings [] = []"
| "clock_readings ((th, Clock t) # acts) = t # clock_readings acts"
| "clock_readings (a # acts) = clock_readings acts"

text \<open>An answer that the conversion applied to it rejects.\<close>

fun malformed :: "env \<Rightarrow> prompt \<Rightarrow> string \<Rightarrow> bool" where
  "malformed ev AskSun a = False"
| "malformed ev AskCoords a = False"
| "malformed ev AskSamples a = isl (py_int ev a)"
| "malformed ev AskBlocks a = isl (py_int ev a)"
| "malformed ev pr a = isl (py_float ev a)"

text \<open>
  What the set-up can do: ask, read the date, and call the coordinate routines, the
  conversion to altitude and azimuth always for the same place on Earth.
\<close>

fun setup_effect :: "effect \<Rightarrow> bool" where
  "setup_effect (Asked pr a) = True"
| "setup_effect (AskedEOF pr) = True"
| "setup_effect JulianDate = True"
| "setup_effect (SunPos jd) = True"
| "setup_effect (GetAltAz ra dec jd lat lon alt) = (lat = 37.8716 \<and> lon = - 122.2727 \<and> alt = 0)"
| "setup_effect (Print m) = (case m of SunPosition a z \<Rightarrow> True | _ \<Rightarrow> False)"
| "setup_effect e = False"

text \<open>What the threads can do once the session runs.\<close>

fun run_effect :: "effect \<Rightarrow> bool" where
  "run_effect (Asked pr a) = False"
| "run_effect (AskedEOF pr) = False"
| "run_effect JulianDate = False"
| "run_effect (SunPos jd) = False"
| "run_effect (GetAltAz ra dec jd lat lon alt) = False"
| "run_effect (Print m) = (case m of SunPosition a z \<Rightarrow> False | InputError e \<Rightarrow> False | _ \<Rightarrow> True)"
| "run_effect e = True"

definition adds_setup :: "'a io \<Rightarrow> bool" where
  "adds_setup m = (\<forall>c r c'. m c = (r, c') \<longrightarrow>
     (\<exists>evs. out c' = out c @ evs \<and> (\<forall>e \<in> set evs. fst e = Controller \<and> setup_effect (snd e))))"

text \<open>No numeric prompt so far was answered with a line its conversion rejects.\<close>

definition clean :: "env \<Rightarrow> event list \<Rightarrow> bool" where
  "clean ev tr = (\<forall>pr a. (Controller, Asked pr a) \<in> set tr \<longrightarrow> \<not> malformed ev pr a)"

definition stays_clean :: "env \<Rightarrow> 'a io \<Rightarrow> bool" where
  "stays_clean ev m =
     (\<forall>c r c'. m c = (r, c') \<longrightarrow> clean ev (out c) \<longrightarrow> isl r \<or> clean ev (out c'))"

text \<open>What the spectrometer loop and the SDR loop read and write.\<close>

definition loops_view ::
  "state \<Rightarrow> pyval list \<times> bool \<times> spec_pc \<times> pyval option \<times> real \<times> sdr_pc \<times> real" where
  "loops_view s =
     (collected_data s, terminate_flag s, spec s, prev_cnt s, spec_start s, sdr s, sdr_start s)"

text \<open>
  What holds of the SDR loop all along: the handle is made once, before anything else,
  and every capture asks for the samples and blocks the thread was created with.
\<close>

definition sdr_inv :: "params \<Rightarrow> state \<Rightarrow> bool" where
  "sdr_inv p s =
     (started_in_order s \<and>
      count_list (trace s) (Sdr, NewSDR) = (if sdr s = SdIdle \<or> sdr s = SdInit then 0 else 1) \<and>
      (\<forall>a b. (Sdr, CaptureData a b) \<in> set (trace s) \<longrightarrow> a = nsamples p \<and> b = nblocks p))"

text \<open>
  Neither collecting loop has entered its body: no read, no capture, no append so far,
  and a loop that has ended has printed its last line.
\<close>

definition never_entered :: "state \<Rightarrow> bool" where
  "never_entered s =
     (spec s \<in> {SpIdle, SpInit, SpCheck, SpDone} \<and>
      sdr s \<in> {SdIdle, SdInit, SdStart, SdCheck, SdDone} \<and>
      collected_data s = [] \<and>
      (\<forall>e \<in> set (trace s). \<not> is_read_or_capture (snd e) \<and> \<not> is_append (snd e)) \<and>
      (spec s = SpDone \<longrightarrow> (Spectrometer, Print SpectrometerFinished) \<in> set (trace s)) \<and>
      (sdr s = SdDone \<longrightarrow> (Sdr, Print SdrFinished) \<in> set (trace s) \<or>
                           (\<exists>e. (Sdr, Print (SdrError e)) \<in> set (trace s))))"

section \<open>A sample session\<close>

text \<open>
  An environment in which a few numerals convert, the answers of a user who gives the
  altitude and azimuth directly, and a schedule: the four threads are started, the SDR
  loop and the spectrometer loop each complete one iteration, the writer saves once, and
  the main thread finds the duration passed.
\<close>

definition demo_env :: env where
  "demo_env =
     \<lparr>py_float = (\<lambda>s. if s = ''45'' then Inr 45 else if s = ''180'' then Inr 180
                        else if s = ''3'' then Inr 3 else if s = ''0'' then Inr 0
                        else Inl ''could not convert string to float''),
      py_int = (\<lambda>s. if s = ''2048'' then Inr 2048 else if s = ''4'' then Inr 4
                      else Inl ''invalid literal for int() with base 10''),
      julian_date = 2460000,
      time_now = 86400,
      sunpos = (\<lambda>jd. Inr (200, 10)),
      get_altaz = (\<lambda>ra dec jd lat lon alt. Inr (45, 180))\<rparr>"

definition demo_lines :: "string list" where
  "demo_lines = [''no'', ''no'', ''45'', ''180'', ''2048'', ''4'', ''3'']"

definition demo_params :: params where
  "demo_params = \<lparr>target_alt = 45, target_az = 180, nsamples = 2048, nblocks = 4, duration = 3\<rparr>"

definition demo_start :: state where
  "demo_start =
     initial None
       [(Controller, Asked AskSun ''no''), (Controller, Asked AskCoords ''no''),
        (Controller, Asked AskAltitude ''45''), (Controller, Asked AskAzimuth ''180''),
        (Controller, Asked AskSamples ''2048''), (Controller, Asked AskBlocks ''4''),
        (Controller, Asked AskDuration ''3'')]"

definition demo_boot :: "(thread \<times> input) list" where
  "demo_boot =
     [(Controller, Tick), (Controller, Tick), (Controller, Tick), (Controller, Tick),
      (Controller, Clock 100)]"

definition demo_collect :: "(thread \<times> input) list" where
  "demo_collect =
     [(Sdr, Returned PNone), (Sdr, Clock 100), (Sdr, Clock 100),
      (Sdr, Returned (PList [PInt 1, PInt (- 2)])), (Sdr, Returned (PStr ''12:00:01'')),
      (Sdr, Tick),
      (Spectrometer, Clock 100), (Spectrometer, Clock 101),
      (Spectrometer, Returned (PDict [(KStr ''acc_cnt'', PInt 7)])),
      (Spectrometer, Returned (PStr ''12:00:02'')), (Spectrometer, Tick),
      (Writer, Tick), (Writer, Returned PNone)]"

definition demo_stop :: "(thread \<times> input) list" where
  "demo_stop = [(Controller, Clock 104)]"

definition demo_after :: "(thread \<times> input) list" where
  "demo_after = [(Sdr, Clock 104), (Spectrometer, Clock 104), (Pointing, Tick)]"

text \<open>The same user asking for a duration of zero seconds, and a schedule for that session.\<close>

definition zero_lines :: "string list" where
  "zero_lines = [''no'', ''no'', ''45'', ''180'', ''2048'', ''4'', ''0'']"

definition zero_acts :: "(thread \<times> input) list" where
  "zero_acts =
     demo_boot @
     [(Spectrometer, Clock 100), (Spectrometer, Clock 100),
      (Sdr, Returned PNone), (Sdr, Clock 101), (Sdr, Clock 101)]"



definition backwards_acts :: "(thread \<times> input) list" where
  "backwards_acts =
     demo_boot @
     [(Spectrometer, Clock 100), (Spectrometer, Clock 99),
      (Spectrometer, Returned (PDict [(KStr ''acc_cnt'', PInt 1)])),
      (Spectrometer, Returned (PStr ''12:00:00''))]"

section \<open>What one step changes\<close>

lemma appended_append: "appended (xs @ ys) = appended xs @ appended ys"
  by (induction xs rule: appended.induct) auto

lemma tel_frame:
  "point_telescope p pc i s = Some s' \<Longrightarrow>
     trace s' = trace s @ events_since s s' \<and>
     (\<forall>e \<in> set (events_since s s'). fst e = Pointing) \<and>
     appended (events_since s s') = [] \<and>
     collected_data s' = collected_data s \<and> terminate_flag s' = terminate_flag s \<and>
     data_file s' = data_file s \<and> spec s' = spec s \<and> sdr s' = sdr s \<and> writer s' = writer s \<and>
     main s' = main s \<and> prev_cnt s' = prev_cnt s \<and> spec_start s' = spec_start s \<and>
     sdr_start s' = sdr_start s \<and> main_start s' = main_start s"
  by (erule point_telescope.elims; simp add: emit_def events_since_def split: if_splits)

lemma spec_frame:
  "collect_spectrometer_data p pc i s = Some s' \<Longrightarrow>
     trace s' = trace s @ events_since s s' \<and>
     (\<forall>e \<in> set (events_since s s'). fst e = Spectrometer) \<and>
     collected_data s' = collected_data s @ appended (events_since s s') \<and>
     terminate_flag s' = terminate_flag s \<and>
     data_file s' = data_file s \<and> tel s' = tel s \<and> sdr s' = sdr s \<and> writer s' = writer s \<and>
     main s' = main s \<and> sdr_start s' = sdr_start s \<and> main_start s' = main_start s"
  by (erule collect_spectrometer_data.elims;
      simp add: emit_def events_since_def Let_def split: if_splits)

lemma sdr_frame:
  "collect_sdr_data p pc i s = Some s' \<Longrightarrow>
     trace s' = trace s @ events_since s s' \<and>
     (\<forall>e \<in> set (events_since s s'). fst e = Sdr) \<and>
     collected_data s' = collected_data s @ appended (events_since s s') \<and>
     terminate_flag s' = terminate_flag s \<and>
     data_file s' = data_file s \<and> tel s' = tel s \<and> spec s' = spec s \<and> writer s' = writer s \<and>
     main s' = main s \<and> prev_cnt s' = prev_cnt s \<and> spec_start s' = spec_start s \<and>
     main_start s' = main_start s"
  by (erule collect_sdr_data.elims; simp add: emit_def events_since_def Let_def split: if_splits)

lemma writer_frame:
  "save_data_periodically p pc i s = Some s' \<Longrightarrow>
     trace s' = trace s @ events_since s s' \<and>
     (\<forall>e \<in> set (events_since s s'). fst e = Writer) \<and>
     appended (events_since s s') = [] \<and>
     collected_data s' = collected_data s \<and> terminate_flag s' = terminate_flag s \<and>
     tel s' = tel s \<and> spec s' = spec s \<and> sdr s' = sdr s \<and>
     main s' = main s \<and> prev_cnt s' = prev_cnt s \<and> spec_start s' = spec_start s \<and>
     sdr_start s' = sdr_start s \<and> main_start s' = main_start s"
  by (erule save_data_periodically.elims;
      simp add: emit_def events_since_def Let_def split: if_splits)

lemma main_frame:
  "main_loop p pc i s = Some s' \<Longrightarrow>
     trace s' = trace s @ events_since s s' \<and>
     (\<forall>e \<in> set (events_since s s'). fst e = Controller) \<and>
     appended (events_since s s') = [] \<and>
     collected_data s' = collected_data s \<and> (terminate_flag s \<longrightarrow> terminate_flag s') \<and>
     data_file s' = data_file s \<and> prev_cnt s' = prev_cnt s \<and> spec_start s' = spec_start s \<and>
     sdr_start s' = sdr_start s"
  by (erule main_loop.elims;
      simp add: emit_def set_flag_def events_since_def Let_def split: if_splits)

lemma main_threads:
  "main_loop p pc i s = Some s' \<Longrightarrow>
     (tel s' = tel s \<or> pc = MnStartTel \<and> tel s' = TelCheck) \<and>
     (spec s' = spec s \<or> pc = MnStartSpec \<and> spec s' = SpInit) \<and>
     (sdr s' = sdr s \<or> pc = MnStartSdr \<and> sdr s' = SdInit) \<and>
     (writer s' = writer s \<or> pc = MnStartWriter \<and> writer s' = WrCheck)"
  by (erule main_loop.elims; simp add: emit_def set_flag_def split: if_splits)

lemma step_frame:
  "step p th i s = Some s' \<Longrightarrow>
     trace s' = trace s @ events_since s s' \<and>
     (\<forall>e \<in> set (events_since s s'). fst e = th) \<and>
     collected_data s' = collected_data s @ appended (events_since s s') \<and>
     (terminate_flag s \<longrightarrow> terminate_flag s') \<and> main s \<noteq> MnExit"
  unfolding step_def
  by (cases th; simp split: if_splits;
      frule tel_frame spec_frame sdr_frame writer_frame main_frame; simp)

lemma events_since_trans:
  "trace s1 = trace s @ events_since s s1 \<Longrightarrow> trace s2 = trace s1 @ events_since s1 s2 \<Longrightarrow>
     events_since s s2 = events_since s s1 @ events_since s1 s2"
  by (metis append.assoc append_eq_conv_conj events_since_def)

lemma events_since_refl [simp]: "events_since s s = []"
  by (simp add: events_since_def)

lemma exec_append:
  "exec p s (xs @ ys) = (case exec p s xs of None \<Rightarrow> None | Some s' \<Rightarrow> exec p s' ys)"
  by (induction xs arbitrary: s) (auto split: option.splits)

lemma exec_Cons_Some:
  "exec p s (a # acts) = Some s' \<Longrightarrow>
     \<exists>s1. step p (fst a) (snd a) s = Some s1 \<and> exec p s1 acts = Some s'"
  by (cases a) (auto split: option.splits)

lemma exec_frame:
  "exec p s acts = Some s' \<Longrightarrow>
     trace s' = trace s @ events_since s s' \<and>
     collected_data s' = collected_data s @ appended (events_since s s') \<and>
     (terminate_flag s \<longrightarrow> terminate_flag s')"
proof (induction acts arbitrary: s)
  case Nil
  then show ?case by simp
next
  case (Cons a acts)
  from exec_Cons_Some [OF Cons.prems] obtain s1
    where s1: "step p (fst a) (snd a) s = Some s1" and rest: "exec p s1 acts = Some s'"
    by blast
  note f = step_frame [OF s1] and g = Cons.IH [OF rest]
  have e: "events_since s s' = events_since s s1 @ events_since s1 s'"
    using f g by (intro events_since_trans) simp_all
  show ?case using f g by (simp add: e appended_append)
qed

lemma step_started:
  "step p th i s = Some s' \<Longrightarrow> started_in_order s \<Longrightarrow> started_in_order s'"
  unfolding step_def
  apply (cases th; simp split: if_splits)
      apply (erule main_loop.elims;
             simp add: started_in_order_def emit_def set_flag_def split: if_splits)
     apply (frule tel_frame; simp add: started_in_order_def)
     apply (erule point_telescope.elims; simp add: emit_def split: if_splits)
    apply (frule spec_frame; simp add: started_in_order_def)
    apply (erule collect_spectrometer_data.elims; simp add: emit_def Let_def split: if_splits)
   apply (frule sdr_frame; simp add: started_in_order_def)
   apply (erule collect_sdr_data.elims; simp add: emit_def Let_def split: if_splits)
  apply (frule writer_frame; simp add: started_in_order_def)
  apply (erule save_data_periodically.elims; simp add: emit_def Let_def split: if_splits)
  done

lemma exec_started:
  "exec p s acts = Some s' \<Longrightarrow> started_in_order s \<Longrightarrow> started_in_order s'"
proof (induction acts arbitrary: s)
  case Nil
  then show ?case by simp
next
  case (Cons a acts)
  from exec_Cons_Some [OF Cons.prems(1)] obtain s1
    where "step p (fst a) (snd a) s = Some s1" and "exec p s1 acts = Some s'"
    by blast
  then show ?case using Cons.IH Cons.prems(2) step_started by blast
qed

lemma by_thread_Nil [simp]: "by_thread th [] = []"
  by (simp add: by_thread_def)

lemma finished_stays:
  assumes "step p th' i s = Some s'" "finished th s" "th \<noteq> Controller" "started_in_order s"
  shows "finished th s' \<and> by_thread th (events_since s s') = []"
proof (cases "th' = th")
  case True
  with assms show ?thesis
    by (cases th; simp add: step_def split: if_splits)
next
  case False
  have ev: "by_thread th (events_since s s') = []"
    using step_frame [OF assms(1)] False by (auto simp: by_thread_def filter_empty_conv)
  have "finished th s'"
  proof (cases th')
    case Controller
    with assms(1) have m: "main_loop p (main s) i s = Some s'"
      by (simp add: step_def split: if_splits)
    from main_threads [OF m] assms(2,3,4) show ?thesis
      by (cases th; auto simp: started_in_order_def)
  next
    case Pointing
    with assms(1) have "point_telescope p (tel s) i s = Some s'"
      by (simp add: step_def split: if_splits)
    from tel_frame [OF this] assms(2) False Pointing show ?thesis by (cases th; simp)
  next
    case Spectrometer
    with assms(1) have "collect_spectrometer_data p (spec s) i s = Some s'"
      by (simp add: step_def split: if_splits)
    from spec_frame [OF this] assms(2) False Spectrometer show ?thesis by (cases th; simp)
  next
    case Sdr
    with assms(1) have "collect_sdr_data p (sdr s) i s = Some s'"
      by (simp add: step_def split: if_splits)
    from sdr_frame [OF this] assms(2) False Sdr show ?thesis by (cases th; simp)
  next
    case Writer
    with assms(1) have "save_data_periodically p (writer s) i s = Some s'"
      by (simp add: step_def split: if_splits)
    from writer_frame [OF this] assms(2) False Writer show ?thesis by (cases th; simp)
  qed
  with ev show ?thesis by simp
qed

lemma by_thread_append [simp]: "by_thread th (xs @ ys) = by_thread th xs @ by_thread th ys"
  by (simp add: by_thread_def)

lemma finished_forever:
  "exec p s acts = Some s' \<Longrightarrow> finished th s \<Longrightarrow> th \<noteq> Controller \<Longrightarrow> started_in_order s \<Longrightarrow>
     finished th s' \<and> by_thread th (events_since s s') = []"
proof (induction acts arbitrary: s)
  case Nil
  then show ?case by simp
next
  case (Cons a acts)
  from exec_Cons_Some [OF Cons.prems(1)] obtain s1
    where s1: "step p (fst a) (snd a) s = Some s1" and rest: "exec p s1 acts = Some s'"
    by blast
  note a = finished_stays [OF s1 Cons.prems(2,3,4)]
  note b = Cons.IH [OF rest conjunct1 [OF a] Cons.prems(3) step_started [OF s1 Cons.prems(4)]]
  have "events_since s s' = events_since s s1 @ events_since s1 s'"
    using step_frame [OF s1] exec_frame [OF rest] by (intro events_since_trans) simp_all
  with a b show ?case by simp
qed

lemma check_with_flag:
  assumes "step p th i s = Some s1" "at_loop_head th s" "terminate_flag s" "th \<noteq> Controller"
  shows "finished th s1 \<and> (\<forall>e \<in> set (by_thread th (events_since s s1)). \<not> is_hardware_call e \<and> \<not> is_append e)"
  using assms
  by (cases th; cases i;
      auto simp: step_def emit_def events_since_def by_thread_def split: if_splits)

section \<open>The set-up, step by step\<close>

lemma adds_ret [simp]: "adds_setup (ret x)"
  by (simp add: adds_setup_def ret_def)

lemma adds_lift [simp]: "adds_setup (lift r)"
  by (simp add: adds_setup_def lift_def)

lemma adds_does [simp]: "setup_effect e \<Longrightarrow> adds_setup (does e)"
  by (simp add: adds_setup_def does_def)

lemma adds_input_line [simp]: "adds_setup (input_line pr)"
  by (auto simp: adds_setup_def input_line_def split: list.splits)

lemma adds_bnd [intro!]:
  assumes "adds_setup m" "\<And>x. adds_setup (f x)"
  shows "adds_setup (bnd m f)"
proof -
  have "\<exists>evs. out c' = out c @ evs \<and> (\<forall>e \<in> set evs. fst e = Controller \<and> setup_effect (snd e))"
    if h: "bnd m f c = (r, c')" for c r c'
  proof (cases "m c")
    case (Pair r1 c1)
    from assms(1) Pair obtain e1 where e1: "out c1 = out c @ e1"
      "\<forall>e \<in> set e1. fst e = Controller \<and> setup_effect (snd e)"
      unfolding adds_setup_def by blast
    show ?thesis
    proof (cases r1)
      case (Inl e)
      with h Pair e1 show ?thesis by (auto simp: bnd_def)
    next
      case (Inr x)
      with h Pair have "f x c1 = (r, c')" by (simp add: bnd_def)
      with assms(2) obtain e2 where "out c' = out c1 @ e2"
        "\<forall>e \<in> set e2. fst e = Controller \<and> setup_effect (snd e)"
        unfolding adds_setup_def by blast
      with e1 show ?thesis by (intro exI [of _ "e1 @ e2"]) auto
    qed
  qed
  then show ?thesis unfolding adds_setup_def by blast
qed

lemma adds_user_input: "adds_setup (user_input ev)"
  unfolding user_input_def sun_target_def coords_target_def manual_target_def
    input_float_def input_int_def Let_def
  by (auto split: prod.splits)

lemma clean_ret [simp]: "stays_clean ev (ret x)"
  by (simp add: stays_clean_def ret_def)

lemma clean_lift [simp]: "stays_clean ev (lift r)"
  by (simp add: stays_clean_def lift_def)

lemma clean_does [simp]: "(\<And>pr a. e \<noteq> Asked pr a) \<Longrightarrow> stays_clean ev (does e)"
  by (auto simp: stays_clean_def does_def clean_def)

lemma clean_bnd [intro!]:
  assumes "stays_clean ev m" "\<And>x. stays_clean ev (f x)"
  shows "stays_clean ev (bnd m f)"
  using assms unfolding stays_clean_def bnd_def
  by (fastforce split: prod.splits sum.splits)

lemma clean_ask [simp]: "stays_clean ev (input_line AskSun)" "stays_clean ev (input_line AskCoords)"
  by (auto simp: stays_clean_def input_line_def clean_def split: list.splits)

lemma clean_input_float [simp]:
  "pr \<notin> {AskSun, AskCoords, AskSamples, AskBlocks} \<Longrightarrow> stays_clean ev (input_float ev pr)"
  unfolding stays_clean_def input_float_def bnd_def input_line_def lift_def clean_def
  by (cases pr; auto split: list.splits sum.splits)

lemma clean_input_int [simp]:
  "pr \<in> {AskSamples, AskBlocks} \<Longrightarrow> stays_clean ev (input_int ev pr)"
  unfolding stays_clean_def input_int_def bnd_def input_line_def lift_def clean_def
  by (cases pr; auto split: list.splits sum.splits)

lemma clean_user_input: "stays_clean ev (user_input ev)"
  unfolding user_input_def sun_target_def coords_target_def manual_target_def Let_def
  by (auto split: prod.splits)

lemma session_start:
  assumes "session ev lines f0 = (Some p, s0)"
  shows "\<exists>tr. s0 = initial f0 tr \<and> (\<forall>e \<in> set tr. fst e = Controller \<and> setup_effect (snd e)) \<and> clean ev tr"
proof -
  obtain r c where u: "user_input ev \<lparr>stdin = lines, out = []\<rparr> = (r, c)" by fastforce
  with assms obtain q where r: "r = Inr q" and s0: "s0 = initial f0 (out c)"
    by (cases r) (auto simp: session_def)
  from adds_user_input [of ev] u have "\<forall>e \<in> set (out c). fst e = Controller \<and> setup_effect (snd e)"
    unfolding adds_setup_def by fastforce
  moreover from clean_user_input [of ev] u r have "clean ev (out c)"
    unfolding stays_clean_def by (fastforce simp: clean_def)
  ultimately show ?thesis using s0 by blast
qed

lemma appended_setup: "\<forall>e \<in> set tr. setup_effect (snd e) \<Longrightarrow> appended tr = []"
  by (induction tr rule: appended.induct) auto

lemma initial_started: "started_in_order (initial f0 tr)"
  by (simp add: started_in_order_def initial_def)

lemma step_run_effect:
  "step p th i s = Some s' \<Longrightarrow> \<forall>e \<in> set (events_since s s'). run_effect (snd e)"
  unfolding step_def
  apply (cases th; simp split: if_splits)
      apply (erule main_loop.elims; simp add: emit_def set_flag_def events_since_def split: if_splits)
     apply (erule point_telescope.elims; simp add: emit_def events_since_def split: if_splits)
    apply (erule collect_spectrometer_data.elims; simp add: emit_def events_since_def Let_def split: if_splits)
   apply (erule collect_sdr_data.elims; simp add: emit_def events_since_def Let_def split: if_splits)
  apply (erule save_data_periodically.elims; simp add: emit_def events_since_def Let_def split: if_splits)
  done

lemma step_appended_ok:
  "step p th i s = Some s' \<Longrightarrow> \<forall>r \<in> set (appended (events_since s s')). record_ok r"
  unfolding step_def
  apply (cases th; simp split: if_splits)
      apply (frule main_frame; simp)
     apply (frule tel_frame; simp)
    apply (erule collect_spectrometer_data.elims;
      simp add: emit_def events_since_def Let_def spectra_record_def has_key_def split: if_splits)
   apply (erule collect_sdr_data.elims;
      simp add: emit_def events_since_def Let_def sdr_record_def has_key_def split: if_splits)
  apply (frule writer_frame; simp)
  done

lemma exec_events:
  "exec p s acts = Some s' \<Longrightarrow>
     (\<forall>e \<in> set (events_since s s'). run_effect (snd e)) \<and>
     (\<forall>r \<in> set (appended (events_since s s')). record_ok r)"
proof (induction acts arbitrary: s)
  case Nil
  then show ?case by simp
next
  case (Cons a acts)
  from exec_Cons_Some [OF Cons.prems] obtain s1
    where s1: "step p (fst a) (snd a) s = Some s1" and rest: "exec p s1 acts = Some s'"
    by blast
  have e: "events_since s s' = events_since s s1 @ events_since s1 s'"
    using step_frame [OF s1] exec_frame [OF rest] by (intro events_since_trans) simp_all
  show ?case
    using step_run_effect [OF s1] step_appended_ok [OF s1] Cons.IH [OF rest]
    by (auto simp: e appended_append)
qed

lemma length_appended: "length (appended evs) = length (filter (\<lambda>e. is_append (snd e)) evs)"
  by (induction evs rule: appended.induct) auto

lemma sun_calls:
  "is_yes a \<and> sunpos ev (julian_date ev) = Inr (ra, dec) \<longrightarrow>
      (Controller, GetAltAz ra dec (julian_date ev) 37.8716 (- 122.2727) 0)
        \<in> set (trace (snd (session ev (a # rest) f0)))"
  by (auto simp: session_def user_input_def sun_target_def bnd_def ret_def lift_def does_def
      input_line_def input_float_def input_int_def initial_def Let_def
      split: list.splits sum.splits prod.splits)

lemma coords_calls:
  "\<not> is_yes a \<and> is_yes b \<and> py_float ev l1 = Inr ra \<and> py_float ev l2 = Inr dec \<longrightarrow>
      (Controller, GetAltAz ra dec (time_now ev / 86400.0 + 2440587.5) 37.8716 (- 122.2727) 0)
        \<in> set (trace (snd (session ev (a # b # l1 # l2 # rest) f0)))"
  by (auto simp: session_def user_input_def coords_target_def bnd_def ret_def lift_def does_def
      input_line_def input_float_def input_int_def initial_def Let_def
      split: list.splits sum.splits prod.splits)

section \<open>The shared buffer\<close>

text \<open>
  Claim C4. In every state a session reaches, the buffer holds exactly the records that
  the \<open>Append\<close> events of the trace appended, in that order, so after N appends it
  holds N records; each record has a \<^verbatim>\<open>time\<close> key and exactly one of the keys
  \<^verbatim>\<open>spectra\<close> and \<^verbatim>\<open>sdr\<close>; and whatever runs afterwards, the buffer of the earlier
  state is a prefix of the later one: no record is changed or removed.
\<close>

theorem buffer_append_only:
  assumes "session ev lines f0 = (Some p, s0)"
    and "exec p s0 pre = Some s"
    and "exec p s acts = Some s'"
  shows "collected_data s = appended (trace s) \<and>
         length (collected_data s) = length (filter (\<lambda>e. is_append (snd e)) (trace s)) \<and>
         (\<forall>r \<in> set (collected_data s). record_ok r) \<and>
         prefix (collected_data s) (collected_data s')"
proof -
  from session_start [OF assms(1)] obtain tr where s0: "s0 = initial f0 tr"
    and tr: "\<forall>e \<in> set tr. fst e = Controller \<and> setup_effect (snd e)" by blast
  have a0: "appended (trace s0) = []" "collected_data s0 = []"
    using s0 tr appended_setup [of tr] by (simp_all add: initial_def)
  note f = exec_frame [OF assms(2)] and g = exec_events [OF assms(2)]
  have t: "trace s = trace s0 @ events_since s0 s" using f by simp
  have "appended (trace s) = appended (trace s0) @ appended (events_since s0 s)"
    by (subst t) (rule appended_append)
  then have d: "collected_data s = appended (trace s)"
    using f a0 by simp
  have ok: "\<forall>r \<in> set (collected_data s). record_ok r"
    using f g a0 by simp
  have "prefix (collected_data s) (collected_data s')"
    using exec_frame [OF assms(3)] by (metis prefixI)
  with d ok show ?thesis by (simp add: length_appended)
qed

theorem buffer_append_only_witness:
  "length (collected_data (the (exec demo_params demo_start (demo_boot @ demo_collect)))) =
     length (filter (\<lambda>e. is_append (snd e))
       (trace (the (exec demo_params demo_start (demo_boot @ demo_collect))))) \<and>
   prefix (collected_data (the (exec demo_params demo_start (demo_boot @ demo_collect))))
     (collected_data (the (exec demo_params
        (the (exec demo_params demo_start (demo_boot @ demo_collect))) (demo_stop @ demo_after))))"
proof -
  define s where "s = the (exec demo_params demo_start (demo_boot @ demo_collect))"
  define s' where "s' = the (exec demo_params s (demo_stop @ demo_after))"
  have h1: "session demo_env demo_lines None = (Some demo_params, demo_start)"
    by code_simp
  have h2: "exec demo_params demo_start (demo_boot @ demo_collect) = Some s"
    unfolding s_def by code_simp
  have h3: "exec demo_params s (demo_stop @ demo_after) = Some s'"
    unfolding s'_def s_def by code_simp
  from buffer_append_only [OF h1 h2 h3] show ?thesis
    unfolding s'_def s_def by blast
qed

section \<open>The termination signal\<close>

text \<open>
  Claim C2. Once \<^verbatim>\<open>terminate_flag\<close> is set it stays set in every later state of the
  session. And when one of the four loops (pointing, spectrometer, SDR, writer) stands
  at its loop head with the flag set and takes its next step, the loop has ended in
  every later state, and from that step on the thread makes no hardware call and
  appends nothing.
\<close>

theorem terminate_flag_stops_loops:
  assumes "session ev lines f0 = (Some p, s0)"
    and "exec p s0 pre = Some s"
    and "terminate_flag s"
    and "exec p s acts = Some s'"
  shows "terminate_flag s' \<and>
         (th \<noteq> Controller \<and> at_loop_head th s \<and> acts = (th, i) # rest \<longrightarrow>
            finished th s' \<and>
            (\<forall>e \<in> set (by_thread th (events_since s s')). \<not> is_hardware_call e \<and> \<not> is_append e))"
proof -
  from session_start [OF assms(1)] obtain tr where "s0 = initial f0 tr" by blast
  then have "started_in_order s0" by (simp add: initial_started)
  then have so: "started_in_order s" using exec_started [OF assms(2)] by simp
  have flag: "terminate_flag s'" using exec_frame [OF assms(4)] assms(3) by simp
  have "finished th s' \<and>
        (\<forall>e \<in> set (by_thread th (events_since s s')). \<not> is_hardware_call e \<and> \<not> is_append e)"
    if h: "th \<noteq> Controller" "at_loop_head th s" "acts = (th, i) # rest"
  proof -
    from assms(4) h(3) obtain s1 where s1: "step p th i s = Some s1"
      and r: "exec p s1 rest = Some s'" by (auto split: option.splits)
    note c = check_with_flag [OF s1 h(2) assms(3) h(1)]
    note d = finished_forever [OF r conjunct1 [OF c] h(1) step_started [OF s1 so]]
    have "events_since s s' = events_since s s1 @ events_since s1 s'"
      using step_frame [OF s1] exec_frame [OF r] by (intro events_since_trans) simp_all
    with c d show ?thesis by simp
  qed
  with flag show ?thesis by blast
qed

theorem terminate_flag_stops_loops_witness:
  "terminate_flag (the (exec demo_params
      (the (exec demo_params demo_start (demo_boot @ demo_collect @ demo_stop))) demo_after)) \<and>
   finished Sdr (the (exec demo_params
      (the (exec demo_params demo_start (demo_boot @ demo_collect @ demo_stop))) demo_after))"
proof -
  define s where "s = the (exec demo_params demo_start (demo_boot @ demo_collect @ demo_stop))"
  define s' where "s' = the (exec demo_params s demo_after)"
  have h1: "session demo_env demo_lines None = (Some demo_params, demo_start)"
    by code_simp
  have h2: "exec demo_params demo_start (demo_boot @ demo_collect @ demo_stop) = Some s"
    unfolding s_def by code_simp
  have h3: "terminate_flag s"
    unfolding s_def by code_simp
  have h4: "exec demo_params s demo_after = Some s'"
    unfolding s'_def s_def by code_simp
  have h5: "Sdr \<noteq> Controller \<and> at_loop_head Sdr s \<and>
      demo_after = (Sdr, Clock 104) # [(Spectrometer, Clock 104), (Pointing, Tick)]"
    unfolding s_def by code_simp
  from terminate_flag_stops_loops [OF h1 h2 h3 h4,
      of Sdr "Clock 104" "[(Spectrometer, Clock 104), (Pointing, Tick)]"] h5
  show ?thesis unfolding s'_def s_def by simp
qed

lemma sun_result:
  "is_yes a \<and> session ev (a # others) f0 = (Some p, s0) \<longrightarrow>
     (\<exists>ra dec. sunpos ev (julian_date ev) = Inr (ra, dec) \<and>
        get_altaz ev ra dec (julian_date ev) 37.8716 (- 122.2727) 0 = Inr (target_alt p, target_az p))"
  by (auto simp: session_def user_input_def sun_target_def bnd_def ret_def lift_def does_def
      input_line_def input_float_def input_int_def initial_def Let_def
      split: list.splits sum.splits prod.splits)

lemma coords_result:
  "\<not> is_yes a \<and> is_yes b \<and> session ev (a # b # l1 # l2 # others) f0 = (Some p, s0) \<longrightarrow>
     (\<exists>ra dec. py_float ev l1 = Inr ra \<and> py_float ev l2 = Inr dec \<and>
        get_altaz ev ra dec (time_now ev / 86400.0 + 2440587.5) 37.8716 (- 122.2727) 0 =
          Inr (target_alt p, target_az p))"
  by (auto simp: session_def user_input_def coords_target_def bnd_def ret_def lift_def does_def
      input_line_def input_float_def input_int_def initial_def Let_def
      split: list.splits sum.splits prod.splits)

section \<open>The observer's location\<close>

text \<open>
  Claim C10. Whatever the user types, every call of \<^verbatim>\<open>get_altaz\<close> in a session is made
  with latitude 37.8716, longitude -122.2727 and altitude 0. The call is made when the
  Sun is observed (with the Sun's coordinates at the Julian date read) and when RA and
  Dec are entered (with the entered coordinates); no prompt asks for a location. In
  both cases the target the threads are started with is what \<^verbatim>\<open>get_altaz\<close> returns for
  those coordinates, that date and this location.
\<close>

theorem observer_location_fixed:
  "(exec p (snd (session ev lines f0)) acts = Some s \<and>
      (th, GetAltAz ra dec jd lat lon alt) \<in> set (trace s) \<longrightarrow>
        lat = 37.8716 \<and> lon = - 122.2727 \<and> alt = 0) \<and>
   (is_yes a \<and> sunpos ev (julian_date ev) = Inr (ra', dec') \<longrightarrow>
      (Controller, GetAltAz ra' dec' (julian_date ev) 37.8716 (- 122.2727) 0)
        \<in> set (trace (snd (session ev (a # others) f0)))) \<and>
   (\<not> is_yes a \<and> is_yes b \<and> py_float ev l1 = Inr ra' \<and> py_float ev l2 = Inr dec' \<longrightarrow>
      (Controller, GetAltAz ra' dec' (time_now ev / 86400.0 + 2440587.5) 37.8716 (- 122.2727) 0)
        \<in> set (trace (snd (session ev (a # b # l1 # l2 # others) f0)))) \<and>
   (is_yes a \<and> session ev (a # others) f0 = (Some q, s0) \<longrightarrow>
      (\<exists>sra sdec. sunpos ev (julian_date ev) = Inr (sra, sdec) \<and>
         get_altaz ev sra sdec (julian_date ev) 37.8716 (- 122.2727) 0 =
           Inr (target_alt q, target_az q))) \<and>
   (\<not> is_yes a \<and> is_yes b \<and> session ev (a # b # l1 # l2 # others) f0 = (Some q, s0) \<longrightarrow>
      (\<exists>cra cdec. py_float ev l1 = Inr cra \<and> py_float ev l2 = Inr cdec \<and>
         get_altaz ev cra cdec (time_now ev / 86400.0 + 2440587.5) 37.8716 (- 122.2727) 0 =
           Inr (target_alt q, target_az q)))"
proof -
  have "lat = 37.8716 \<and> lon = - 122.2727 \<and> alt = 0"
    if x: "exec p (snd (session ev lines f0)) acts = Some s"
      and m: "(th, GetAltAz ra dec jd lat lon alt) \<in> set (trace s)"
  proof -
    obtain r c where u: "user_input ev \<lparr>stdin = lines, out = []\<rparr> = (r, c)" by fastforce
    from adds_user_input [of ev] u have c: "\<forall>e \<in> set (out c). setup_effect (snd e)"
      unfolding adds_setup_def by fastforce
    have t0: "\<forall>e \<in> set (trace (snd (session ev lines f0))).
                setup_effect (snd e) \<or> (\<exists>m. snd e = Print (InputError m))"
      using u c by (cases r) (auto simp: session_def initial_def)
    have t: "trace s = trace (snd (session ev lines f0)) @ events_since (snd (session ev lines f0)) s"
      using exec_frame [OF x] by simp
    from m have "(th, GetAltAz ra dec jd lat lon alt) \<in> set (trace (snd (session ev lines f0)))
        \<or> (th, GetAltAz ra dec jd lat lon alt) \<in> set (events_since (snd (session ev lines f0)) s)"
      by (subst (asm) t) simp
    then have "setup_effect (GetAltAz ra dec jd lat lon alt)"
    proof
      assume "(th, GetAltAz ra dec jd lat lon alt) \<in> set (trace (snd (session ev lines f0)))"
      with t0 show ?thesis by fastforce
    next
      assume "(th, GetAltAz ra dec jd lat lon alt) \<in> set (events_since (snd (session ev lines f0)) s)"
      with exec_events [OF x] have "run_effect (GetAltAz ra dec jd lat lon alt)" by fastforce
      then show ?thesis by simp
    qed
    then show ?thesis by simp
  qed
  with sun_calls [of a ev ra' dec' others f0] coords_calls [of a b ev l1 ra' l2 dec' others f0]
    sun_result [of a ev others f0 q s0] coords_result [of a b ev l1 l2 others f0 q s0]
  show ?thesis by blast
qed

theorem observer_location_fixed_witness:
  "(Controller, GetAltAz 200 10 2460000 37.8716 (- 122.2727) 0)
     \<in> set (trace (snd (session demo_env [''yes'', ''2048'', ''4'', ''3''] None))) \<and>
   (Controller, GetAltAz 45 180 2440588.5 37.8716 (- 122.2727) 0)
     \<in> set (trace (snd (session demo_env
           [''no'', '' Yes'', ''45'', ''180'', ''2048'', ''4'', ''3''] None))) \<and>
   get_altaz demo_env 200 10 2460000 37.8716 (- 122.2727) 0 =
     Inr (target_alt (the (fst (session demo_env [''yes'', ''2048'', ''4'', ''3''] None))),
          target_az (the (fst (session demo_env [''yes'', ''2048'', ''4'', ''3''] None)))) \<and>
   get_altaz demo_env 45 180 2440588.5 37.8716 (- 122.2727) 0 =
     Inr (target_alt (the (fst (session demo_env
            [''no'', '' Yes'', ''45'', ''180'', ''2048'', ''4'', ''3''] None))),
          target_az (the (fst (session demo_env
            [''no'', '' Yes'', ''45'', ''180'', ''2048'', ''4'', ''3''] None))))"
proof -
  define sun where "sun = session demo_env [''yes'', ''2048'', ''4'', ''3''] None"
  define crd where "crd = session demo_env [''no'', '' Yes'', ''45'', ''180'', ''2048'', ''4'', ''3''] None"
  have h1: "exec demo_params (snd sun) [] = Some (snd sun)"
    by simp
  have h2: "(Controller, GetAltAz 200 10 2460000 37.8716 (- 122.2727) 0) \<in> set (trace (snd sun))"
    unfolding sun_def by code_simp
  have h3: "is_yes ''yes'' \<and> sunpos demo_env (julian_date demo_env) = Inr (200, 10)"
    by code_simp
  have h4: "\<not> is_yes ''no'' \<and> is_yes '' Yes'' \<and> py_float demo_env ''45'' = Inr 45 \<and>
      py_float demo_env ''180'' = Inr 180"
    by code_simp
  have h5: "julian_date demo_env = 2460000" "time_now demo_env / 86400.0 + 2440587.5 = 2440588.5"
    by (simp_all add: demo_env_def)
  have h6: "session demo_env [''yes'', ''2048'', ''4'', ''3''] None = (Some (the (fst sun)), snd sun)"
    unfolding sun_def by code_simp
  have h7: "session demo_env [''no'', '' Yes'', ''45'', ''180'', ''2048'', ''4'', ''3''] None =
      (Some (the (fst crd)), snd crd)"
    unfolding crd_def by code_simp
  note a = observer_location_fixed [where p = demo_params and ev = demo_env
      and lines = "[''yes'', ''2048'', ''4'', ''3'']" and ?f0.0 = None and acts = "[]"
      and s = "snd sun" and th = Controller and ra = 200 and dec = 10 and jd = 2460000
      and lat = "37.8716" and lon = "- 122.2727" and alt = 0
      and a = "''yes''" and ra' = 200 and dec' = 10 and others = "[''2048'', ''4'', ''3'']"
      and q = "the (fst sun)" and ?s0.0 = "snd sun"]
  note b = observer_location_fixed [where p = demo_params and ev = demo_env
      and lines = "[]" and ?f0.0 = None and acts = "[]"
      and a = "''no''" and b = "'' Yes''" and ?l1.0 = "''45''" and ?l2.0 = "''180''"
      and ra' = 45 and dec' = 180 and others = "[''2048'', ''4'', ''3'']"
      and q = "the (fst crd)" and ?s0.0 = "snd crd"]
  from a h1 h2 h3 h5 h6 have 1:
    "(Controller, GetAltAz 200 10 2460000 37.8716 (- 122.2727) 0) \<in> set (trace (snd sun))"
    "get_altaz demo_env 200 10 2460000 37.8716 (- 122.2727) 0 =
       Inr (target_alt (the (fst sun)), target_az (the (fst sun)))"
    unfolding sun_def by auto
  from b h4 h5 h7 have 2:
    "(Controller, GetAltAz 45 180 2440588.5 37.8716 (- 122.2727) 0) \<in> set (trace (snd crd))"
    "get_altaz demo_env 45 180 2440588.5 37.8716 (- 122.2727) 0 =
       Inr (target_alt (the (fst crd)), target_az (the (fst crd)))"
    unfolding crd_def by auto
  from 1 2 show ?thesis unfolding sun_def crd_def by simp
qed

lemma session_aborted:
  assumes "fst (session ev lines f0) = None"
  shows "\<exists>tr e. snd (session ev lines f0) =
            (initial f0 (tr @ [(Controller, Print (InputError e))]))\<lparr>main := MnExit\<rparr> \<and>
            (\<forall>x \<in> set tr. setup_effect (snd x))"
proof -
  obtain r c where u: "user_input ev \<lparr>stdin = lines, out = []\<rparr> = (r, c)" by fastforce
  from adds_user_input [of ev] u have c: "\<forall>e \<in> set (out c). setup_effect (snd e)"
    unfolding adds_setup_def by fastforce
  from assms u obtain e where "r = Inl e" by (cases r) (auto simp: session_def)
  with u c show ?thesis by (auto simp: session_def)
qed

section \<open>Malformed input\<close>

text \<open>
  Claim C7. When any numeric prompt of the set-up (RA, Dec, altitude, azimuth, samples
  per block, number of blocks, duration) is answered with a line that \<^verbatim>\<open>float\<close> or
  \<^verbatim>\<open>int\<close> rejects, the session is aborted: the last thing printed is the input-error
  message, the main thread has ended, none of the four threads was started, the file
  is as it was before the session, and no step is possible any more.
\<close>

theorem malformed_input_aborts:
  assumes "s = snd (session ev lines f0)"
    and "(Controller, Asked pr a) \<in> set (trace s)"
    and "malformed ev pr a"
  shows "fst (session ev lines f0) = None \<and>
         (\<exists>e. last (trace s) = (Controller, Print (InputError e))) \<and>
         main s = MnExit \<and> tel s = TelIdle \<and> spec s = SpIdle \<and> sdr s = SdIdle \<and>
         writer s = WrIdle \<and> data_file s = f0 \<and> collected_data s = [] \<and>
         (\<forall>x \<in> set (trace s). \<forall>th. snd x \<noteq> StartThread th \<and> snd x \<noteq> OpenForWrite) \<and>
         (\<forall>p th i. step p th i s = None)"
proof -
  have none: "fst (session ev lines f0) = None"
  proof (cases "fst (session ev lines f0)")
    case None
    then show ?thesis .
  next
    case (Some p)
    then have "session ev lines f0 = (Some p, s)" using assms(1) by (metis prod.collapse)
    from session_start [OF this] obtain tr where "s = initial f0 tr" "clean ev tr" by blast
    with assms(2,3) show ?thesis by (simp add: clean_def initial_def)
  qed
  from session_aborted [OF none] assms(1) obtain tr e where
    s: "s = (initial f0 (tr @ [(Controller, Print (InputError e))]))\<lparr>main := MnExit\<rparr>"
    and tr: "\<forall>x \<in> set tr. setup_effect (snd x)" by blast
  have "\<forall>x \<in> set (trace s). \<forall>th. snd x \<noteq> StartThread th \<and> snd x \<noteq> OpenForWrite"
    using tr by (auto simp: s initial_def)
  with none show ?thesis by (simp add: s initial_def step_def)
qed

theorem malformed_input_aborts_witness:
  "fst (session demo_env [''no'', ''yes'', ''abc''] None) = None \<and>
   main (snd (session demo_env [''no'', ''yes'', ''abc''] None)) = MnExit \<and>
   data_file (snd (session demo_env [''no'', ''yes'', ''abc''] None)) = None"
proof -
  have h2: "(Controller, Asked AskRA ''abc'')
      \<in> set (trace (snd (session demo_env [''no'', ''yes'', ''abc''] None)))"
    by code_simp
  have h3: "malformed demo_env AskRA ''abc''"
    by code_simp
  from malformed_input_aborts [OF refl h2 h3] show ?thesis by blast
qed

lemma file_frame:
  "step p th i s = Some s' \<Longrightarrow> th \<noteq> Writer \<Longrightarrow> data_file s' = data_file s"
  unfolding step_def
  by (cases th; simp split: if_splits;
      frule tel_frame spec_frame sdr_frame main_frame; simp)

lemma writer_done_file:
  "exec p s acts = Some s' \<Longrightarrow> writer s = WrDone \<Longrightarrow> started_in_order s \<Longrightarrow>
     data_file s' = data_file s"
proof (induction acts arbitrary: s)
  case Nil
  then show ?case by simp
next
  case (Cons a acts)
  from exec_Cons_Some [OF Cons.prems(1)] obtain s1
    where s1: "step p (fst a) (snd a) s = Some s1" and rest: "exec p s1 acts = Some s'"
    by blast
  have nw: "fst a \<noteq> Writer"
    using s1 Cons.prems(2) by (auto simp: step_def split: if_splits)
  have "finished Writer s" using Cons.prems(2) by simp
  from finished_stays [OF s1 this _ Cons.prems(3)] have "writer s1 = WrDone" by simp
  from Cons.IH [OF rest this step_started [OF s1 Cons.prems(3)]] file_frame [OF s1 nw]
  show ?case by simp
qed

lemma reach_started:
  "session ev lines f0 = (Some p, s0) \<Longrightarrow> exec p s0 pre = Some s \<Longrightarrow> started_in_order s"
  using session_start initial_started exec_started by blast

section \<open>Errors of the snapshot writer\<close>

text \<open>
  Claim C1, as the code has it. When the write of the snapshot file raises (at
  \<^verbatim>\<open>open\<close> or in the middle of the write), the writer prints the error and its loop
  ends: the \<^verbatim>\<open>try\<close> encloses the whole \<^verbatim>\<open>while\<close>. In every later state the
  writer is still at its end, it has done nothing more, and the file is as the failed
  write left it. The termination flag is not touched.
\<close>

theorem writer_error_ends_loop:
  assumes "session ev lines f0 = (Some p, s0)"
    and "exec p s0 pre = Some s"
    and "writer s = WrWrite"
    and "i = Raised e \<or> i = RaisedAfter n e"
    and "exec p s ((Writer, i) # acts) = Some s'"
  shows "\<exists>s1. step p Writer i s = Some s1 \<and> exec p s1 acts = Some s' \<and>
           events_since s s1 = [(Writer, OpenForWrite), (Writer, Print (SaveError e))] \<and>
           writer s1 = WrDone \<and> terminate_flag s1 = terminate_flag s \<and>
           writer s' = WrDone \<and> by_thread Writer (events_since s1 s') = [] \<and>
           data_file s' = data_file s1"
proof -
  from assms(5) obtain s1 where s1: "step p Writer i s = Some s1"
    and r: "exec p s1 acts = Some s'" by (auto split: option.splits)
  have so: "started_in_order s1"
    using reach_started [OF assms(1,2)] step_started [OF s1] by simp
  have a: "events_since s s1 = [(Writer, OpenForWrite), (Writer, Print (SaveError e))]"
    "writer s1 = WrDone" "terminate_flag s1 = terminate_flag s"
    using s1 assms(3,4) by (auto simp: step_def emit_def events_since_def split: if_splits)
  from a(2) have "finished Writer s1" by simp
  from finished_forever [OF r this _ so] writer_done_file [OF r a(2) so] s1 r a
  show ?thesis by simp
qed

theorem writer_error_ends_loop_witness:
  "writer (the (exec demo_params demo_start
      (demo_boot @ [(Writer, Tick), (Writer, Raised ''No space left on device''), (Sdr, Returned PNone)])))
     = WrDone"
proof -
  define s where "s = the (exec demo_params demo_start (demo_boot @ [(Writer, Tick)]))"
  define s' where "s' = the (exec demo_params s
      [(Writer, Raised ''No space left on device''), (Sdr, Returned PNone)])"
  have h1: "session demo_env demo_lines None = (Some demo_params, demo_start)"
    by code_simp
  have h2: "exec demo_params demo_start (demo_boot @ [(Writer, Tick)]) = Some s"
    unfolding s_def by code_simp
  have h3: "writer s = WrWrite"
    unfolding s_def by code_simp
  have h4: "Raised ''No space left on device'' = Raised ''No space left on device'' \<or>
      Raised ''No space left on device'' = RaisedAfter 0 ''No space left on device''"
    by simp
  have h5: "exec demo_params s
      ((Writer, Raised ''No space left on device'') # [(Sdr, Returned PNone)]) = Some s'"
    unfolding s'_def s_def by code_simp
  have e: "the (exec demo_params demo_start
      (demo_boot @ [(Writer, Tick), (Writer, Raised ''No space left on device''), (Sdr, Returned PNone)]))
      = s'"
    unfolding s'_def s_def by code_simp
  from writer_error_ends_loop [OF h1 h2 h3 h4 h5] show ?thesis
    unfolding e by blast
qed

text \<open>
  The claim as it was stated fails: after a write error the writer does not try again.
  In the sample session the writer's first write raises; its loop has ended although the
  flag is clear, and the writer can take no further step, neither the test at the loop
  head nor another write.
\<close>

theorem writer_error_counterexample:
  "exec demo_params demo_start
      (demo_boot @ [(Writer, Tick), (Writer, Raised ''No space left on device'')]) \<noteq> None \<and>
   writer (the (exec demo_params demo_start
      (demo_boot @ [(Writer, Tick), (Writer, Raised ''No space left on device'')]))) = WrDone \<and>
   \<not> terminate_flag (the (exec demo_params demo_start
      (demo_boot @ [(Writer, Tick), (Writer, Raised ''No space left on device'')]))) \<and>
   exec demo_params demo_start
      (demo_boot @ [(Writer, Tick), (Writer, Raised ''No space left on device''), (Writer, Tick)]) = None \<and>
   exec demo_params demo_start
      (demo_boot @ [(Writer, Tick), (Writer, Raised ''No space left on device''),
                    (Writer, Returned PNone)]) = None"
  by code_simp

lemma spec_ignores_tel:
  "map_option loops_view (collect_spectrometer_data p pc i (s\<lparr>trace := tr, tel := x\<rparr>)) =
   map_option loops_view (collect_spectrometer_data p pc i s)"
  by (cases "(p, pc, i, s)" rule: collect_spectrometer_data.cases)
     (simp_all add: emit_def Let_def loops_view_def)

lemma sdr_ignores_tel:
  "map_option loops_view (collect_sdr_data p pc i (s\<lparr>trace := tr, tel := x\<rparr>)) =
   map_option loops_view (collect_sdr_data p pc i s)"
  by (cases "(p, pc, i, s)" rule: collect_sdr_data.cases)
     (simp_all add: emit_def Let_def loops_view_def)

section \<open>Errors of the pointing loop\<close>

text \<open>
  Claim C6. When the call \<^verbatim>\<open>interf.point\<close> raises, the pointing loop prints the error
  and ends: it does not call the adapter again in any later state, and it leaves the
  termination flag as it was. The spectrometer loop and the SDR loop are not affected:
  each of their steps is possible after the error exactly when it was possible without
  it, with the same effect on the buffer, on the flag and on their own variables.
\<close>

theorem pointing_error_isolated:
  assumes "session ev lines f0 = (Some p, s0)"
    and "exec p s0 pre = Some s"
    and "tel s = TelPoint"
    and "main s \<noteq> MnExit"
  shows "\<exists>s1. step p Pointing (Raised e) s = Some s1 \<and>
           events_since s s1 =
             [(Pointing, Point (target_alt p) (target_az p)), (Pointing, Print (TelescopeError e))] \<and>
           tel s1 = TelDone \<and> terminate_flag s1 = terminate_flag s \<and>
           (\<forall>th i. th = Spectrometer \<or> th = Sdr \<longrightarrow>
              map_option loops_view (step p th i s1) = map_option loops_view (step p th i s)) \<and>
           (\<forall>acts s'. exec p s1 acts = Some s' \<longrightarrow>
              tel s' = TelDone \<and> by_thread Pointing (events_since s1 s') = [])"
proof -
  define s1 where "s1 = s\<lparr>trace := trace s @
      [(Pointing, Point (target_alt p) (target_az p)), (Pointing, Print (TelescopeError e))],
      tel := TelDone\<rparr>"
  have st: "step p Pointing (Raised e) s = Some s1"
    using assms(3,4) by (simp add: step_def emit_def s1_def)
  have so: "started_in_order s1"
    using reach_started [OF assms(1,2)] step_started [OF st] by simp
  have a: "events_since s s1 =
      [(Pointing, Point (target_alt p) (target_az p)), (Pointing, Print (TelescopeError e))]"
    "tel s1 = TelDone" "terminate_flag s1 = terminate_flag s" "main s1 = main s"
    "spec s1 = spec s" "sdr s1 = sdr s"
    by (simp_all add: s1_def events_since_def)
  have b: "map_option loops_view (step p th i s1) = map_option loops_view (step p th i s)"
    if "th = Spectrometer \<or> th = Sdr" for th i
    using that a(4,5,6) unfolding step_def
    by (auto simp: s1_def spec_ignores_tel sdr_ignores_tel)
  have c: "tel s' = TelDone \<and> by_thread Pointing (events_since s1 s') = []"
    if "exec p s1 acts = Some s'" for acts s'
    using finished_forever [OF that, of Pointing] a(2) so by simp
  from st a b c show ?thesis by blast
qed

theorem pointing_error_isolated_witness:
  "tel (the (step demo_params Pointing (Raised ''drive fault'')
         (the (exec demo_params demo_start (demo_boot @ [(Pointing, Tick)]))))) = TelDone \<and>
   map_option loops_view (step demo_params Sdr (Returned PNone)
       (the (step demo_params Pointing (Raised ''drive fault'')
         (the (exec demo_params demo_start (demo_boot @ [(Pointing, Tick)])))))) =
   map_option loops_view (step demo_params Sdr (Returned PNone)
       (the (exec demo_params demo_start (demo_boot @ [(Pointing, Tick)])))) \<and>
   length (collected_data (the (exec demo_params demo_start
       (demo_boot @ [(Pointing, Tick), (Pointing, Raised ''drive fault'')] @ demo_collect)))) = 2"
proof -
  define s where "s = the (exec demo_params demo_start (demo_boot @ [(Pointing, Tick)]))"
  have h1: "session demo_env demo_lines None = (Some demo_params, demo_start)"
    by code_simp
  have h2: "exec demo_params demo_start (demo_boot @ [(Pointing, Tick)]) = Some s"
    unfolding s_def by code_simp
  have h3: "tel s = TelPoint"
    unfolding s_def by code_simp
  have h4: "main s \<noteq> MnExit"
    unfolding s_def by code_simp
  have run: "length (collected_data (the (exec demo_params demo_start
       (demo_boot @ [(Pointing, Tick), (Pointing, Raised ''drive fault'')] @ demo_collect)))) = 2"
    by code_simp
  from pointing_error_isolated [OF h1 h2 h3 h4, of "''drive fault''"] obtain s1 where
    "step demo_params Pointing (Raised ''drive fault'') s = Some s1" "tel s1 = TelDone"
    "map_option loops_view (step demo_params Sdr (Returned PNone) s1) =
     map_option loops_view (step demo_params Sdr (Returned PNone) s)"
    by blast
  with run show ?thesis unfolding s_def by simp
qed

section \<open>The spectrometer loop\<close>

text \<open>
  Claim C3. For every response \<open>d\<close> of \<^verbatim>\<open>snap.read_data\<close>: when \<open>d\<close> has the key
  \<^verbatim>\<open>acc_cnt\<close>, the rest of the iteration appends the record
  \<^verbatim>\<open>{"time": t, "spectra": d}\<close> to the buffer and remembers the counter; when \<open>d\<close>
  lacks the key, the iteration goes on to the pause with the buffer and the remembered
  counter unchanged, and no append step is possible. Nothing is asked of the value of
  the counter: it is not compared with the one remembered.
\<close>

theorem spectrometer_appends_iff_acc_cnt:
  assumes "spec s = SpRead" and "main s \<noteq> MnExit"
  shows "(has_key ''acc_cnt'' d \<longrightarrow>
            (\<exists>s'. exec p s [(Spectrometer, Returned (PDict d)), (Spectrometer, Returned t),
                             (Spectrometer, Tick)] = Some s' \<and>
                   events_since s s' =
                     [(Spectrometer, ReadData (prev_cnt s)),
                      (Spectrometer, Append (spectra_record t d)),
                      (Spectrometer, Sleep 1)] \<and>
                   collected_data s' = collected_data s @ [spectra_record t d] \<and>
                   prev_cnt s' = get_item d ''acc_cnt'' \<and> spec s' = SpCheck)) \<and>
         (\<not> has_key ''acc_cnt'' d \<longrightarrow>
            (\<exists>s'. exec p s [(Spectrometer, Returned (PDict d)), (Spectrometer, Tick)] = Some s' \<and>
                   events_since s s' =
                     [(Spectrometer, ReadData (prev_cnt s)), (Spectrometer, Sleep 1)] \<and>
                   collected_data s' = collected_data s \<and>
                   prev_cnt s' = prev_cnt s \<and> spec s' = SpCheck) \<and>
            exec p s [(Spectrometer, Returned (PDict d)), (Spectrometer, Returned t)] = None)"
  using assms by (simp add: step_def emit_def events_since_def Let_def)

theorem spectrometer_appends_iff_acc_cnt_witness:
  "collected_data (the (exec demo_params
       (the (exec demo_params demo_start (demo_boot @ [(Spectrometer, Clock 100), (Spectrometer, Clock 100)])))
       [(Spectrometer, Returned (PDict [(KStr ''acc_cnt'', PInt 7), (KStr ''auto0_real'', PList [PInt 3])])),
        (Spectrometer, Returned (PStr ''12:00:02'')), (Spectrometer, Tick)])) =
     [spectra_record (PStr ''12:00:02'') [(KStr ''acc_cnt'', PInt 7), (KStr ''auto0_real'', PList [PInt 3])]] \<and>
   collected_data (the (exec demo_params
       (the (exec demo_params demo_start (demo_boot @ [(Spectrometer, Clock 100), (Spectrometer, Clock 100)])))
       [(Spectrometer, Returned (PDict [(KStr ''status'', PStr ''busy'')])), (Spectrometer, Tick)])) = []"
proof -
  define s where "s = the (exec demo_params demo_start
      (demo_boot @ [(Spectrometer, Clock 100), (Spectrometer, Clock 100)]))"
  have h1: "spec s = SpRead" unfolding s_def by code_simp
  have h2: "main s \<noteq> MnExit" unfolding s_def by code_simp
  have h3: "has_key ''acc_cnt'' [(KStr ''acc_cnt'', PInt 7), (KStr ''auto0_real'', PList [PInt 3])]"
    by code_simp
  have h4: "\<not> has_key ''acc_cnt'' [(KStr ''status'', PStr ''busy'')]"
    by code_simp
  have h5: "collected_data s = []" unfolding s_def by code_simp
  from spectrometer_appends_iff_acc_cnt [OF h1 h2,
      of "[(KStr ''acc_cnt'', PInt 7), (KStr ''auto0_real'', PList [PInt 3])]" demo_params "PStr ''12:00:02''"]
    spectrometer_appends_iff_acc_cnt [OF h1 h2, of "[(KStr ''status'', PStr ''busy'')]" demo_params PNone]
    h3 h4 h5
  show ?thesis unfolding s_def by auto
qed

lemma exec_invariant:
  assumes "exec p s acts = Some s'" and "I s"
    and "\<And>th i a b. I a \<Longrightarrow> step p th i a = Some b \<Longrightarrow> I b"
  shows "I s'"
  using assms(1,2)
proof (induction acts arbitrary: s)
  case Nil
  then show ?case by simp
next
  case (Cons a acts)
  from exec_Cons_Some [OF Cons.prems(1)] obtain s1
    where "step p (fst a) (snd a) s = Some s1" and "exec p s1 acts = Some s'"
    by blast
  then show ?case using Cons.IH Cons.prems(2) assms(3) by blast
qed

lemma count_list_other:
  "\<forall>e \<in> set evs. fst e \<noteq> fst x \<Longrightarrow> count_list (tr @ evs) x = count_list tr x"
  by (induction evs arbitrary: tr rule: rev_induct) (auto simp flip: append_assoc)

lemma sdr_inv_step:
  assumes "sdr_inv p s" and "step p th i s = Some s'"
  shows "sdr_inv p s'"
proof -
  have so: "started_in_order s'" using assms step_started by (simp add: sdr_inv_def)
  note f = step_frame [OF assms(2)]
  show ?thesis
  proof (cases "th = Sdr")
    case True
    with assms(2) have "collect_sdr_data p (sdr s) i s = Some s'"
      by (simp add: step_def split: if_splits)
    then show ?thesis using assms(1) so
      by (elim collect_sdr_data.elims; auto simp: sdr_inv_def emit_def split: if_splits)
  next
    case False
    have t: "trace s' = trace s @ events_since s s'" "\<forall>e \<in> set (events_since s s'). fst e \<noteq> Sdr"
      using f False by auto
    have c: "count_list (trace s') (Sdr, NewSDR) = count_list (trace s) (Sdr, NewSDR)"
      by (subst t(1)) (rule count_list_other, use t(2) in simp)
    have m: "(Sdr, x) \<in> set (trace s') \<longleftrightarrow> (Sdr, x) \<in> set (trace s)" for x
      by (subst t(1)) (use t(2) in auto)
    have d: "sdr s' = sdr s \<or> (sdr s = SdIdle \<and> sdr s' = SdInit)"
    proof (cases th)
      case Controller
      with assms(2) have "main_loop p (main s) i s = Some s'"
        by (simp add: step_def split: if_splits)
      from main_threads [OF this] assms(1) show ?thesis
        by (auto simp: sdr_inv_def started_in_order_def)
    next
      case Pointing
      with assms(2) have "point_telescope p (tel s) i s = Some s'"
        by (simp add: step_def split: if_splits)
      from tel_frame [OF this] show ?thesis by simp
    next
      case Spectrometer
      with assms(2) have "collect_spectrometer_data p (spec s) i s = Some s'"
        by (simp add: step_def split: if_splits)
      from spec_frame [OF this] show ?thesis by simp
    next
      case Sdr
      with False show ?thesis by simp
    next
      case Writer
      with assms(2) have "save_data_periodically p (writer s) i s = Some s'"
        by (simp add: step_def split: if_splits)
      from writer_frame [OF this] show ?thesis by simp
    qed
    from assms(1) so c m d show ?thesis by (auto simp: sdr_inv_def)
  qed
qed

lemma sdr_inv_reach:
  assumes "session ev lines f0 = (Some p, s0)" and "exec p s0 pre = Some s"
  shows "sdr_inv p s"
proof -
  from session_start [OF assms(1)] obtain tr where s0: "s0 = initial f0 tr"
    and tr: "\<forall>e \<in> set tr. fst e = Controller \<and> setup_effect (snd e)" by blast
  have "count_list ([] @ tr) (Sdr, NewSDR) = count_list [] (Sdr, NewSDR)"
    by (rule count_list_other) (use tr in simp)
  then have "sdr_inv p s0"
    using tr by (auto simp: sdr_inv_def s0 initial_def started_in_order_def)
  from exec_invariant [OF assms(2), of "sdr_inv p", OF this] sdr_inv_step
  show ?thesis by blast
qed

section \<open>The SDR loop\<close>

text \<open>
  Claim C8. In every state of a session the SDR loop has constructed its handle exactly
  once as soon as it is past its first statement (and never before), and every capture
  it has made asked for \<open>nsamples\<close> samples and \<open>nblocks\<close> blocks. An iteration
  that finds the duration not yet passed and the flag clear calls
  \<^verbatim>\<open>capture_data(nsamples, nblocks)\<close>, appends the dictionary with the two keys
  \<^verbatim>\<open>time\<close> and \<^verbatim>\<open>sdr\<close>, \<^verbatim>\<open>{"time": u, "sdr": v}\<close>, for the payload \<open>v\<close> returned
  and the time \<open>u\<close> that \<^verbatim>\<open>ugradio.timing.utc()\<close> gives at the append, pauses one
  second and is back at the loop head; an iteration that finds the duration passed or the flag set prints the last
  line and ends the loop.
\<close>

theorem sdr_loop_contract:
  assumes "session ev lines f0 = (Some p, s0)"
    and "exec p s0 pre = Some s"
  shows "count_list (trace s) (Sdr, NewSDR) = (if sdr s = SdIdle \<or> sdr s = SdInit then 0 else 1) \<and>
         (\<forall>a b. (Sdr, CaptureData a b) \<in> set (trace s) \<longrightarrow> a = nsamples p \<and> b = nblocks p) \<and>
         (sdr s = SdCheck \<and> main s \<noteq> MnExit \<and> t - sdr_start s < duration p \<and> \<not> terminate_flag s \<longrightarrow>
            (\<exists>s'. exec p s [(Sdr, Clock t), (Sdr, Returned v), (Sdr, Returned u), (Sdr, Tick)] = Some s' \<and>
                   events_since s s' =
                     [(Sdr, CaptureData (nsamples p) (nblocks p)),
                      (Sdr, Append (PDict [(KStr ''time'', u), (KStr ''sdr'', v)])),
                      (Sdr, Sleep 1)] \<and>
                   collected_data s' = collected_data s @ [PDict [(KStr ''time'', u), (KStr ''sdr'', v)]] \<and>
                   sdr s' = SdCheck \<and> sdr_start s' = sdr_start s)) \<and>
         (sdr s = SdCheck \<and> main s \<noteq> MnExit \<and> \<not> (t - sdr_start s < duration p \<and> \<not> terminate_flag s) \<longrightarrow>
            (\<exists>s'. step p Sdr (Clock t) s = Some s' \<and> sdr s' = SdDone \<and>
                   events_since s s' = [(Sdr, Print SdrFinished)]))"
proof -
  from sdr_inv_reach [OF assms] have
    "count_list (trace s) (Sdr, NewSDR) = (if sdr s = SdIdle \<or> sdr s = SdInit then 0 else 1)"
    "\<forall>a b. (Sdr, CaptureData a b) \<in> set (trace s) \<longrightarrow> a = nsamples p \<and> b = nblocks p"
    by (simp_all add: sdr_inv_def)
  moreover have "sdr s = SdCheck \<and> main s \<noteq> MnExit \<and> t - sdr_start s < duration p \<and> \<not> terminate_flag s \<longrightarrow>
            (\<exists>s'. exec p s [(Sdr, Clock t), (Sdr, Returned v), (Sdr, Returned u), (Sdr, Tick)] = Some s' \<and>
                   events_since s s' =
                     [(Sdr, CaptureData (nsamples p) (nblocks p)),
                      (Sdr, Append (PDict [(KStr ''time'', u), (KStr ''sdr'', v)])),
                      (Sdr, Sleep 1)] \<and>
                   collected_data s' = collected_data s @ [PDict [(KStr ''time'', u), (KStr ''sdr'', v)]] \<and>
                   sdr s' = SdCheck \<and> sdr_start s' = sdr_start s)"
    by (simp add: step_def emit_def events_since_def sdr_record_def)
  moreover have "sdr s = SdCheck \<and> main s \<noteq> MnExit \<and> \<not> (t - sdr_start s < duration p \<and> \<not> terminate_flag s) \<longrightarrow>
            (\<exists>s'. step p Sdr (Clock t) s = Some s' \<and> sdr s' = SdDone \<and>
                   events_since s s' = [(Sdr, Print SdrFinished)])"
    by (auto simp: step_def emit_def events_since_def)
  ultimately show ?thesis by blast
qed

theorem sdr_loop_contract_witness:
  "count_list (trace (the (exec demo_params demo_start (demo_boot @ demo_collect)))) (Sdr, NewSDR) = 1 \<and>
   collected_data (the (exec demo_params
       (the (exec demo_params demo_start (demo_boot @ [(Sdr, Returned PNone), (Sdr, Clock 100)])))
       [(Sdr, Clock 101), (Sdr, Returned (PList [PInt 5])), (Sdr, Returned (PStr ''12:00:01'')), (Sdr, Tick)])) =
     [PDict [(KStr ''time'', PStr ''12:00:01''), (KStr ''sdr'', PList [PInt 5])]] \<and>
   sdr (the (step demo_params Sdr (Clock 104)
       (the (exec demo_params demo_start (demo_boot @ [(Sdr, Returned PNone), (Sdr, Clock 100)]))))) = SdDone"
proof -
  define s where "s = the (exec demo_params demo_start (demo_boot @ [(Sdr, Returned PNone), (Sdr, Clock 100)]))"
  define s2 where "s2 = the (exec demo_params demo_start (demo_boot @ demo_collect))"
  have h1: "session demo_env demo_lines None = (Some demo_params, demo_start)"
    by code_simp
  have h2: "exec demo_params demo_start (demo_boot @ [(Sdr, Returned PNone), (Sdr, Clock 100)]) = Some s"
    unfolding s_def by code_simp
  have h3: "exec demo_params demo_start (demo_boot @ demo_collect) = Some s2"
    unfolding s2_def by code_simp
  have h4: "sdr s = SdCheck \<and> main s \<noteq> MnExit \<and> 101 - sdr_start s < duration demo_params \<and>
      \<not> terminate_flag s"
    unfolding s_def by code_simp
  have h5: "sdr s = SdCheck \<and> main s \<noteq> MnExit \<and>
      \<not> (104 - sdr_start s < duration demo_params \<and> \<not> terminate_flag s)"
    unfolding s_def by code_simp
  have h6: "(Sdr, CaptureData 2048 4) \<in> set (trace s2)" "sdr s2 = SdCheck" "collected_data s = []"
    unfolding s2_def s_def by code_simp+
  from sdr_loop_contract [OF h1 h3, of 0 PNone PNone] h6
  have a: "count_list (trace s2) (Sdr, NewSDR) = 1" "2048 = nsamples demo_params \<and> 4 = nblocks demo_params"
    by auto
  from sdr_loop_contract [OF h1 h2, of 101 "PList [PInt 5]" "PStr ''12:00:01''"] h4 h6(3)
  have b: "collected_data (the (exec demo_params s
      [(Sdr, Clock 101), (Sdr, Returned (PList [PInt 5])), (Sdr, Returned (PStr ''12:00:01'')), (Sdr, Tick)])) =
     [PDict [(KStr ''time'', PStr ''12:00:01''), (KStr ''sdr'', PList [PInt 5])]]"
    by auto
  from sdr_loop_contract [OF h1 h2, of 104 PNone PNone] h5
  have c: "sdr (the (step demo_params Sdr (Clock 104) s)) = SdDone"
    by auto
  from a b c show ?thesis unfolding s_def s2_def by simp
qed

lemma clock_readings_Cons:
  "clock_readings ((th, i) # acts) = (case i of Clock t \<Rightarrow> [t] | _ \<Rightarrow> []) @ clock_readings acts"
  by (cases i) simp_all

lemma never_entered_extend:
  assumes "never_entered s" and "trace s' = trace s @ evs"
    and "\<forall>e \<in> set evs. \<not> is_read_or_capture (snd e) \<and> \<not> is_append (snd e)"
    and "collected_data s' = collected_data s"
    and "spec s' \<in> {SpIdle, SpInit, SpCheck, SpDone}"
    and "sdr s' \<in> {SdIdle, SdInit, SdStart, SdCheck, SdDone}"
    and "spec s' = SpDone \<longrightarrow> spec s = SpDone \<or> (Spectrometer, Print SpectrometerFinished) \<in> set evs"
    and "sdr s' = SdDone \<longrightarrow> sdr s = SdDone \<or> (Sdr, Print SdrFinished) \<in> set evs \<or>
           (\<exists>e. (Sdr, Print (SdrError e)) \<in> set evs)"
  shows "never_entered s'"
proof -
  have 1: "\<forall>e \<in> set (trace s'). \<not> is_read_or_capture (snd e) \<and> \<not> is_append (snd e)"
    using assms(1,3) unfolding never_entered_def assms(2) by auto
  have 2: "spec s' = SpDone \<longrightarrow> (Spectrometer, Print SpectrometerFinished) \<in> set (trace s')"
    using assms(1,7) unfolding never_entered_def assms(2) by auto
  have 3: "sdr s' = SdDone \<longrightarrow> (Sdr, Print SdrFinished) \<in> set (trace s') \<or>
                           (\<exists>e. (Sdr, Print (SdrError e)) \<in> set (trace s'))"
    using assms(1,8) unfolding never_entered_def assms(2) by auto
  have 4: "collected_data s' = []"
    using assms(1,4) unfolding never_entered_def by simp
  from 1 2 3 4 assms(5,6) show ?thesis unfolding never_entered_def by blast
qed

lemma spec_step_idle:
  assumes "collect_spectrometer_data p (spec s) i s = Some s'" and "duration p \<le> 0"
    and "spec s \<in> {SpIdle, SpInit, SpCheck, SpDone}"
    and "\<forall>t. i = Clock t \<longrightarrow> spec s = SpCheck \<longrightarrow> spec_start s \<le> t"
  shows "spec s' \<in> {SpIdle, SpInit, SpCheck, SpDone} \<and>
         (\<forall>e \<in> set (events_since s s'). \<not> is_read_or_capture (snd e) \<and> \<not> is_append (snd e)) \<and>
         collected_data s' = collected_data s \<and>
         (spec s' = SpDone \<longrightarrow> (Spectrometer, Print SpectrometerFinished) \<in> set (events_since s s')) \<and>
         (spec s' = SpCheck \<longrightarrow> i = Clock (spec_start s'))"
  using assms
  by (elim collect_spectrometer_data.elims;
      simp add: emit_def events_since_def Let_def split: if_splits)

lemma sdr_step_idle:
  assumes "collect_sdr_data p (sdr s) i s = Some s'" and "duration p \<le> 0"
    and "sdr s \<in> {SdIdle, SdInit, SdStart, SdCheck, SdDone}"
    and "\<forall>t. i = Clock t \<longrightarrow> sdr s = SdCheck \<longrightarrow> sdr_start s \<le> t"
  shows "sdr s' \<in> {SdIdle, SdInit, SdStart, SdCheck, SdDone} \<and>
         (\<forall>e \<in> set (events_since s s'). \<not> is_read_or_capture (snd e) \<and> \<not> is_append (snd e)) \<and>
         collected_data s' = collected_data s \<and>
         (sdr s' = SdDone \<longrightarrow> (Sdr, Print SdrFinished) \<in> set (events_since s s') \<or>
            (\<exists>e. (Sdr, Print (SdrError e)) \<in> set (events_since s s'))) \<and>
         (sdr s' = SdCheck \<longrightarrow> i = Clock (sdr_start s'))"
  using assms
  by (elim collect_sdr_data.elims;
      simp add: emit_def events_since_def Let_def split: if_splits)

lemma never_entered_other:
  assumes "never_entered s" and "trace s' = trace s @ evs"
    and "\<forall>e \<in> set evs. \<not> is_read_or_capture (snd e) \<and> \<not> is_append (snd e)"
    and "collected_data s' = collected_data s"
    and "spec s' = spec s \<or> spec s' = SpInit"
    and "sdr s' = sdr s \<or> sdr s' = SdInit"
    and "spec_start s' = spec_start s" and "sdr_start s' = sdr_start s"
  shows "never_entered s' \<and>
         (spec s' = SpCheck \<longrightarrow> spec s = SpCheck \<and> spec_start s' = spec_start s \<or> i = Clock (spec_start s')) \<and>
         (sdr s' = SdCheck \<longrightarrow> sdr s = SdCheck \<and> sdr_start s' = sdr_start s \<or> i = Clock (sdr_start s'))"
proof -
  have pcs: "spec s \<in> {SpIdle, SpInit, SpCheck, SpDone}" "sdr s \<in> {SdIdle, SdInit, SdStart, SdCheck, SdDone}"
    using assms(1) unfolding never_entered_def by blast+
  have a: "spec s' \<in> {SpIdle, SpInit, SpCheck, SpDone}" using assms(5) pcs(1) by auto
  have b: "sdr s' \<in> {SdIdle, SdInit, SdStart, SdCheck, SdDone}" using assms(6) pcs(2) by auto
  have c: "spec s' = SpDone \<longrightarrow> spec s = SpDone \<or> (Spectrometer, Print SpectrometerFinished) \<in> set evs"
    using assms(5) by auto
  have d: "sdr s' = SdDone \<longrightarrow> sdr s = SdDone \<or> (Sdr, Print SdrFinished) \<in> set evs \<or>
           (\<exists>e. (Sdr, Print (SdrError e)) \<in> set evs)"
    using assms(6) by auto
  have "never_entered s'"
    by (rule never_entered_extend [OF assms(1,2,3,4) a b c d])
  moreover have "spec s' = SpCheck \<longrightarrow> spec s = SpCheck \<and> spec_start s' = spec_start s"
    using assms(5,7) by auto
  moreover have "sdr s' = SdCheck \<longrightarrow> sdr s = SdCheck \<and> sdr_start s' = sdr_start s"
    using assms(6,8) by auto
  ultimately show ?thesis by blast
qed

lemma never_entered_step:
  assumes "step p th i s = Some s'" and "duration p \<le> 0" and "never_entered s"
    and "\<forall>t. i = Clock t \<longrightarrow> (spec s = SpCheck \<longrightarrow> spec_start s \<le> t) \<and> (sdr s = SdCheck \<longrightarrow> sdr_start s \<le> t)"
  shows "never_entered s' \<and>
         (spec s' = SpCheck \<longrightarrow> spec s = SpCheck \<and> spec_start s' = spec_start s \<or> i = Clock (spec_start s')) \<and>
         (sdr s' = SdCheck \<longrightarrow> sdr s = SdCheck \<and> sdr_start s' = sdr_start s \<or> i = Clock (sdr_start s'))"
proof -
  have pcs: "spec s \<in> {SpIdle, SpInit, SpCheck, SpDone}" "sdr s \<in> {SdIdle, SdInit, SdStart, SdCheck, SdDone}"
    using assms(3) unfolding never_entered_def by blast+
  show ?thesis
  proof (cases th)
    case Controller
    with assms(1) have m: "main_loop p (main s) i s = Some s'"
      by (simp add: step_def split: if_splits)
    note f = main_frame [OF m] and g = main_threads [OF m]
    have e: "\<forall>e \<in> set (events_since s s'). \<not> is_read_or_capture (snd e) \<and> \<not> is_append (snd e)"
      using m by (elim main_loop.elims; simp add: emit_def set_flag_def events_since_def split: if_splits)
    have h: "collected_data s' = collected_data s" "spec_start s' = spec_start s"
      "sdr_start s' = sdr_start s" using f by simp_all
    have k: "spec s' = spec s \<or> spec s' = SpInit" "sdr s' = sdr s \<or> sdr s' = SdInit"
      using g by blast+
    show ?thesis
      by (rule never_entered_other [OF assms(3) conjunct1 [OF f] e h(1) k h(2,3)])
  next
    case Pointing
    with assms(1) have m: "point_telescope p (tel s) i s = Some s'"
      by (simp add: step_def split: if_splits)
    note f = tel_frame [OF m]
    have e: "\<forall>e \<in> set (events_since s s'). \<not> is_read_or_capture (snd e) \<and> \<not> is_append (snd e)"
      using m by (elim point_telescope.elims; simp add: emit_def events_since_def split: if_splits)
    have h: "collected_data s' = collected_data s" "spec_start s' = spec_start s"
      "sdr_start s' = sdr_start s" using f by simp_all
    have k: "spec s' = spec s \<or> spec s' = SpInit" "sdr s' = sdr s \<or> sdr s' = SdInit"
      using f by simp_all
    show ?thesis
      by (rule never_entered_other [OF assms(3) conjunct1 [OF f] e h(1) k h(2,3)])
  next
    case Writer
    with assms(1) have m: "save_data_periodically p (writer s) i s = Some s'"
      by (simp add: step_def split: if_splits)
    note f = writer_frame [OF m]
    have e: "\<forall>e \<in> set (events_since s s'). \<not> is_read_or_capture (snd e) \<and> \<not> is_append (snd e)"
      using m by (elim save_data_periodically.elims; simp add: emit_def events_since_def split: if_splits)
    have h: "collected_data s' = collected_data s" "spec_start s' = spec_start s"
      "sdr_start s' = sdr_start s" using f by simp_all
    have k: "spec s' = spec s \<or> spec s' = SpInit" "sdr s' = sdr s \<or> sdr s' = SdInit"
      using f by simp_all
    show ?thesis
      by (rule never_entered_other [OF assms(3) conjunct1 [OF f] e h(1) k h(2,3)])
  next
    case Spectrometer
    with assms(1) have m: "collect_spectrometer_data p (spec s) i s = Some s'"
      by (simp add: step_def split: if_splits)
    note f = spec_frame [OF m]
    have now: "\<forall>t. i = Clock t \<longrightarrow> spec s = SpCheck \<longrightarrow> spec_start s \<le> t" using assms(4) by blast
    note x = spec_step_idle [OF m assms(2) pcs(1) now]
    have h: "sdr s' = sdr s" "sdr_start s' = sdr_start s" using f by simp_all
    have b: "sdr s' \<in> {SdIdle, SdInit, SdStart, SdCheck, SdDone}" using h pcs(2) by simp
    have d: "sdr s' = SdDone \<longrightarrow> sdr s = SdDone \<or> (Sdr, Print SdrFinished) \<in> set (events_since s s') \<or>
           (\<exists>e. (Sdr, Print (SdrError e)) \<in> set (events_since s s'))"
      using h by simp
    have c: "spec s' = SpDone \<longrightarrow> spec s = SpDone \<or>
        (Spectrometer, Print SpectrometerFinished) \<in> set (events_since s s')"
      using x by blast
    have "never_entered s'"
      by (rule never_entered_extend [OF assms(3) conjunct1 [OF f] _ _ _ b c d]) (use x in blast)+
    moreover have "spec s' = SpCheck \<longrightarrow> i = Clock (spec_start s')" using x by blast
    ultimately show ?thesis using h by simp
  next
    case Sdr
    with assms(1) have m: "collect_sdr_data p (sdr s) i s = Some s'"
      by (simp add: step_def split: if_splits)
    note f = sdr_frame [OF m]
    have now: "\<forall>t. i = Clock t \<longrightarrow> sdr s = SdCheck \<longrightarrow> sdr_start s \<le> t" using assms(4) by blast
    note x = sdr_step_idle [OF m assms(2) pcs(2) now]
    have h: "spec s' = spec s" "spec_start s' = spec_start s" using f by simp_all
    have a: "spec s' \<in> {SpIdle, SpInit, SpCheck, SpDone}" using h pcs(1) by simp
    have c: "spec s' = SpDone \<longrightarrow> spec s = SpDone \<or>
        (Spectrometer, Print SpectrometerFinished) \<in> set (events_since s s')"
      using h by simp
    have d: "sdr s' = SdDone \<longrightarrow> sdr s = SdDone \<or> (Sdr, Print SdrFinished) \<in> set (events_since s s') \<or>
           (\<exists>e. (Sdr, Print (SdrError e)) \<in> set (events_since s s'))"
      using x by blast
    have b: "sdr s' \<in> {SdIdle, SdInit, SdStart, SdCheck, SdDone}" using x by blast
    have "never_entered s'"
      by (rule never_entered_extend [OF assms(3) conjunct1 [OF f] _ _ a b c d]) (use x in blast)+
    moreover have "sdr s' = SdCheck \<longrightarrow> i = Clock (sdr_start s')" using x by blast
    ultimately show ?thesis using h by simp
  qed
qed

lemma never_entered_exec:
  "exec p s acts = Some s' \<Longrightarrow> duration p \<le> 0 \<Longrightarrow> sorted (clock_readings acts) \<Longrightarrow>
   never_entered s \<Longrightarrow>
   (spec s = SpCheck \<longrightarrow> (\<forall>t \<in> set (clock_readings acts). spec_start s \<le> t)) \<Longrightarrow>
   (sdr s = SdCheck \<longrightarrow> (\<forall>t \<in> set (clock_readings acts). sdr_start s \<le> t)) \<Longrightarrow>
   never_entered s'"
proof (induction acts arbitrary: s)
  case Nil
  then show ?case by simp
next
  case (Cons a acts)
  obtain th i where a: "a = (th, i)" by (cases a)
  from Cons.prems(1) a obtain s1 where s1: "step p th i s = Some s1"
    and rest: "exec p s1 acts = Some s'" by (auto split: option.splits)
  have cr: "clock_readings (a # acts) = (case i of Clock t \<Rightarrow> [t] | _ \<Rightarrow> []) @ clock_readings acts"
    using a by (simp add: clock_readings_Cons)
  have srt: "sorted (clock_readings acts)"
    using Cons.prems(3) cr by (simp add: sorted_append)
  have later: "\<forall>u \<in> set (clock_readings acts). t \<le> u" if "i = Clock t" for t
    using Cons.prems(3) cr that by simp
  have now: "\<forall>t. i = Clock t \<longrightarrow> (spec s = SpCheck \<longrightarrow> spec_start s \<le> t) \<and> (sdr s = SdCheck \<longrightarrow> sdr_start s \<le> t)"
    using Cons.prems(5,6) cr by auto
  note n = never_entered_step [OF s1 Cons.prems(2,4) now]
  have b1: "spec s1 = SpCheck \<longrightarrow> (\<forall>t \<in> set (clock_readings acts). spec_start s1 \<le> t)"
    using n Cons.prems(5) cr later by auto
  have b2: "sdr s1 = SdCheck \<longrightarrow> (\<forall>t \<in> set (clock_readings acts). sdr_start s1 \<le> t)"
    using n Cons.prems(6) cr later by auto
  from Cons.IH [OF rest Cons.prems(2) srt conjunct1 [OF n] b1 b2] show ?case .
qed

section \<open>A duration that is not positive\<close>

text \<open>
  Claim C9, as the code has it. In a session whose duration is zero or negative, and in
  which the clock never reads less than it read before, neither the spectrometer loop nor the SDR loop
  ever enters its body: in every state reached the trace holds no \<^verbatim>\<open>read_data\<close> call,
  no \<^verbatim>\<open>capture_data\<close> call and no append, the buffer is empty, and a loop that has
  ended has printed its last line (for the SDR loop the error line instead, when the
  construction of the handle raised).
\<close>

theorem nonpositive_duration_collects_nothing:
  assumes "session ev lines f0 = (Some p, s0)"
    and "exec p s0 acts = Some s"
    and "duration p \<le> 0"
    and "sorted (clock_readings acts)"
  shows "(\<forall>e \<in> set (trace s). \<not> is_read_or_capture (snd e) \<and> \<not> is_append (snd e)) \<and>
         collected_data s = [] \<and>
         spec s \<in> {SpIdle, SpInit, SpCheck, SpDone} \<and>
         sdr s \<in> {SdIdle, SdInit, SdStart, SdCheck, SdDone} \<and>
         (spec s = SpDone \<longrightarrow> (Spectrometer, Print SpectrometerFinished) \<in> set (trace s)) \<and>
         (sdr s = SdDone \<longrightarrow> (Sdr, Print SdrFinished) \<in> set (trace s) \<or>
                              (\<exists>e. (Sdr, Print (SdrError e)) \<in> set (trace s)))"
proof -
  from session_start [OF assms(1)] obtain tr where s0: "s0 = initial f0 tr"
    and tr: "\<forall>e \<in> set tr. fst e = Controller \<and> setup_effect (snd e)" by blast
  have "\<not> is_read_or_capture e \<and> \<not> is_append e" if "setup_effect e" for e
    using that by (cases e) simp_all
  with tr have "never_entered s0"
    by (auto simp: never_entered_def s0 initial_def)
  from never_entered_exec [OF assms(2,3,4) this] have "never_entered s"
    by (simp add: s0 initial_def)
  then show ?thesis unfolding never_entered_def by blast
qed

theorem nonpositive_duration_collects_nothing_witness:
  "collected_data (the (exec (the (fst (session demo_env zero_lines None)))
      (snd (session demo_env zero_lines None)) zero_acts)) = [] \<and>
   spec (the (exec (the (fst (session demo_env zero_lines None)))
      (snd (session demo_env zero_lines None)) zero_acts)) = SpDone \<and>
   sdr (the (exec (the (fst (session demo_env zero_lines None)))
      (snd (session demo_env zero_lines None)) zero_acts)) = SdDone"
proof -
  define p where "p = the (fst (session demo_env zero_lines None))"
  define s0 where "s0 = snd (session demo_env zero_lines None)"
  define s where "s = the (exec p s0 zero_acts)"
  have h1: "session demo_env zero_lines None = (Some p, s0)"
    unfolding p_def s0_def by code_simp
  have h2: "exec p s0 zero_acts = Some s"
    unfolding s_def p_def s0_def by code_simp
  have h3: "duration p \<le> 0"
    unfolding p_def by code_simp
  have h4: "sorted (clock_readings zero_acts)"
    by code_simp
  have h5: "spec s = SpDone" "sdr s = SdDone"
    unfolding s_def p_def s0_def by code_simp+
  from nonpositive_duration_collects_nothing [OF h1 h2 h3 h4] h5
  show ?thesis unfolding s_def p_def s0_def by blast
qed

text \<open>
  Without the condition on the clock the claim fails: \<^verbatim>\<open>time.time()\<close> is the wall clock.
  In this session of zero seconds the clock reads 100 when the spectrometer loop takes
  its start time and 99 at the first test of the loop, so the test
  \<^verbatim>\<open>time.time() - start_time < duration\<close> succeeds; the loop calls \<^verbatim>\<open>read_data\<close> and
  appends a record.
\<close>

theorem nonpositive_duration_counterexample:
  "duration (the (fst (session demo_env zero_lines None))) \<le> 0 \<and>
   collected_data (the (exec (the (fst (session demo_env zero_lines None)))
      (snd (session demo_env zero_lines None)) backwards_acts)) =
     [PDict [(KStr ''time'', PStr ''12:00:00''),
             (KStr ''spectra'', PDict [(KStr ''acc_cnt'', PInt 1)])]] \<and>
   by_thread Spectrometer (trace (the (exec (the (fst (session demo_env zero_lines None)))
      (snd (session demo_env zero_lines None)) backwards_acts))) =
     [ReadData None,
      Append (PDict [(KStr ''time'', PStr ''12:00:00''),
                     (KStr ''spectra'', PDict [(KStr ''acc_cnt'', PInt 1)])])]"
  by code_simp


section \<open>The snapshot file\<close>















































end
